theory Spec2Isabelle
  imports Main "HOL-Library.Char_ord" "HOL-Library.List_Lexorder"
begin

section \<open>Go strings\<close>

text \<open>
  A Go string is a sequence of bytes, modelled as \<open>string\<close> (a list of 8-bit
  characters). The functions of package \<open>strings\<close> that the handlers call read the
  bytes as UTF-8: they work on code points (\<open>rune\<close>), and a byte that begins no valid
  encoding counts as the code point \<open>RuneError\<close> of width 1.
\<close>

subsection \<open>Package utf8\<close>

type_synonym rune = nat

definition RuneError :: rune where
  "RuneError = 0xFFFD"

definition RuneSelf :: nat where
  "RuneSelf = 0x80"

text \<open>
  The tables \<open>first\<close> and \<open>acceptRanges\<close> read together, for a leading byte outside
  ASCII: the length of the sequence it begins and the range accepted for the second byte;
  \<open>None\<close> for a byte that begins no sequence.
\<close>

definition first_byte :: "nat \<Rightarrow> (nat \<times> nat \<times> nat) option" where
  "first_byte b =
     (if 0xC2 \<le> b \<and> b \<le> 0xDF then Some (2, 0x80, 0xBF)
      else if b = 0xE0 then Some (3, 0xA0, 0xBF)
      else if 0xE1 \<le> b \<and> b \<le> 0xEC then Some (3, 0x80, 0xBF)
      else if b = 0xED then Some (3, 0x80, 0x9F)
      else if 0xEE \<le> b \<and> b \<le> 0xEF then Some (3, 0x80, 0xBF)
      else if b = 0xF0 then Some (4, 0x90, 0xBF)
      else if 0xF1 \<le> b \<and> b \<le> 0xF3 then Some (4, 0x80, 0xBF)
      else if b = 0xF4 then Some (4, 0x80, 0x8F)
      else None)"

definition byte_at :: "string \<Rightarrow> nat \<Rightarrow> nat" where
  "byte_at s i = of_char (s ! i)"

text \<open>\<open>utf8.DecodeRuneInString\<close>: the first code point of \<open>s\<close> and its width in bytes.\<close>

definition DecodeRuneInString :: "string \<Rightarrow> rune \<times> nat" where
  "DecodeRuneInString s =
     (if length s < 1 then (RuneError, 0)
      else let s0 = byte_at s 0 in
        if s0 < RuneSelf then (s0, 1)
        else case first_byte s0 of
          None \<Rightarrow> (RuneError, 1)
        | Some (sz, lo, hi) \<Rightarrow>
            if length s < sz then (RuneError, 1)
            else let s1 = byte_at s 1 in
              if s1 < lo \<or> hi < s1 then (RuneError, 1)
              else if sz \<le> 2 then ((s0 mod 32) * 64 + s1 mod 64, 2)
              else let s2 = byte_at s 2 in
                if s2 < 0x80 \<or> 0xBF < s2 then (RuneError, 1)
                else if sz \<le> 3 then (((s0 mod 16) * 64 + s1 mod 64) * 64 + s2 mod 64, 3)
                else let s3 = byte_at s 3 in
                  if s3 < 0x80 \<or> 0xBF < s3 then (RuneError, 1)
                  else ((((s0 mod 8) * 64 + s1 mod 64) * 64 + s2 mod 64) * 64 + s3 mod 64, 4))"

text \<open>
  \<open>utf8.DecodeLastRuneInString\<close>: the last code point of \<open>s\<close> and its width. The loop
  walks back from the byte before the last, over at most three bytes, to a byte that can
  begin an encoding.
\<close>

definition RuneStart :: "nat \<Rightarrow> bool" where
  "RuneStart b = (\<not> (0x80 \<le> b \<and> b \<le> 0xBF))"

function start_before :: "string \<Rightarrow> int \<Rightarrow> int \<Rightarrow> int" where
  "start_before s lim start =
     (if start \<ge> lim
      then (if RuneStart (byte_at s (nat start)) then start else start_before s lim (start - 1))
      else start)"
  by pat_completeness auto
termination
  by (relation "measure (\<lambda>(s, lim, start). nat (start - lim + 1))") auto

declare start_before.simps [simp del]

definition DecodeLastRuneInString :: "string \<Rightarrow> rune \<times> nat" where
  "DecodeLastRuneInString s =
     (let end = int (length s) in
      if end = 0 then (RuneError, 0)
      else let r = byte_at s (nat (end - 1)) in
        if r < RuneSelf then (r, 1)
        else let lim = max 0 (end - 4);
                 start = max 0 (start_before s lim (end - 2));
                 (c, width) = DecodeRuneInString (drop (nat start) s)
             in if start + int width \<noteq> end then (RuneError, 1) else (c, width))"

text \<open>
  \<open>utf8.AppendRune\<close>: the encoding of a code point; a surrogate or a value beyond
  \<open>U+10FFFF\<close> is written as \<open>RuneError\<close>.
\<close>

definition EncodeRune :: "rune \<Rightarrow> string" where
  "EncodeRune r =
     (if r \<le> 0x7F then [char_of r]
      else if r \<le> 0x7FF then [char_of (0xC0 + r div 64), char_of (0x80 + r mod 64)]
      else if r > 0x10FFFF \<or> (0xD800 \<le> r \<and> r \<le> 0xDFFF) then [CHR 0xEF, CHR 0xBF, CHR 0xBD]
      else if r \<le> 0xFFFF then
        [char_of (0xE0 + r div 4096), char_of (0x80 + r div 64 mod 64), char_of (0x80 + r mod 64)]
      else [char_of (0xF0 + r div 262144), char_of (0x80 + r div 4096 mod 64),
            char_of (0x80 + r div 64 mod 64), char_of (0x80 + r mod 64)])"

text \<open>\<open>for _, c := range s\<close>: the code points of \<open>s\<close> in order, each with the bytes it spans.\<close>

function runes :: "string \<Rightarrow> (rune \<times> string) list" where
  "runes [] = []"
| "runes (c # cs) =
     (case DecodeRuneInString (c # cs) of
        (r, width) \<Rightarrow> (r, take width (c # cs)) # runes (drop width (c # cs)))"
  by pat_completeness auto
termination
  apply (relation "measure length")
   apply simp
  apply (auto simp: DecodeRuneInString_def Let_def split: if_splits option.splits prod.splits)
  done

subsection \<open>Package unicode\<close>

text \<open>
  \<open>unicode.IsSpace\<close>: in Latin-1 the six ASCII white-space characters, \<open>U+0085\<close> and
  \<open>U+00A0\<close>; beyond, the code points of the table \<open>White_Space\<close>.
\<close>

definition IsSpace :: "rune \<Rightarrow> bool" where
  "IsSpace r =
     (if r \<le> 0xFF then r \<in> set [0x09, 0x0A, 0x0B, 0x0C, 0x0D, 0x20, 0x85, 0xA0]
      else r = 0x1680 \<or> (0x2000 \<le> r \<and> r \<le> 0x200A) \<or> r = 0x2028 \<or> r = 0x2029
           \<or> r = 0x202F \<or> r = 0x205F \<or> r = 0x3000)"

text \<open>
  \<open>unicode.ToUpper\<close> and \<open>unicode.ToLower\<close> map the ASCII letters themselves and look
  every other code point up in the table \<open>unicode.CaseRanges\<close>. That table is data of
  the Go distribution and not of this repository; its two mappings are a parameter of
  the model, and every property below is proved for every such table.
\<close>

record case_tables =
  upper_case :: "rune \<Rightarrow> rune"
  lower_case :: "rune \<Rightarrow> rune"

definition unicode_ToUpper :: "case_tables \<Rightarrow> rune \<Rightarrow> rune" where
  "unicode_ToUpper tables r =
     (if r \<le> 0x7F then (if 0x61 \<le> r \<and> r \<le> 0x7A then r - 0x20 else r)
      else upper_case tables r)"

definition unicode_ToLower :: "case_tables \<Rightarrow> rune \<Rightarrow> rune" where
  "unicode_ToLower tables r =
     (if r \<le> 0x7F then (if 0x41 \<le> r \<and> r \<le> 0x5A then r + 0x20 else r)
      else lower_case tables r)"

subsection \<open>Package strings\<close>

text \<open>
  \<open>strings.Map\<close>: every code point is replaced by the encoding of its image (so an
  invalid byte becomes the three bytes of \<open>RuneError\<close>). \<open>strings.ToUpper\<close> and
  \<open>strings.ToLower\<close> are \<open>Map\<close> with the mappings of package \<open>unicode\<close>; their
  short cut for ASCII-only text computes the same.
\<close>

definition Map :: "(rune \<Rightarrow> rune) \<Rightarrow> string \<Rightarrow> string" where
  "Map mapping s = concat (map (\<lambda>(c, bytes). EncodeRune (mapping c)) (runes s))"

definition ToUpper :: "case_tables \<Rightarrow> string \<Rightarrow> string" where
  "ToUpper tables s = Map (unicode_ToUpper tables) s"

definition ToLower :: "case_tables \<Rightarrow> string \<Rightarrow> string" where
  "ToLower tables s = Map (unicode_ToLower tables) s"

text \<open>
  \<open>strings.TrimSpace\<close> is \<open>TrimFunc(s, unicode.IsSpace)\<close>: white-space code points are
  dropped from the left, decoding forwards, and then from the right, decoding backwards.
\<close>

definition TrimLeftFunc :: "(rune \<Rightarrow> bool) \<Rightarrow> string \<Rightarrow> string" where
  "TrimLeftFunc f s = concat (map snd (dropWhile (\<lambda>(r, bytes). f r) (runes s)))"

function TrimRightFunc :: "(rune \<Rightarrow> bool) \<Rightarrow> string \<Rightarrow> string" where
  "TrimRightFunc f [] = []"
| "TrimRightFunc f (c # cs) =
     (case DecodeLastRuneInString (c # cs) of
        (r, width) \<Rightarrow>
          if f r then TrimRightFunc f (take (length (c # cs) - width) (c # cs)) else c # cs)"
  by pat_completeness auto
termination
proof -
  have sb: "start_before s lim start \<le> start" for s lim start
  proof (induction s lim start rule: start_before.induct)
    case (1 s lim start)
    then show ?case by (subst start_before.simps) auto
  qed
  have pos: "0 < snd (DecodeLastRuneInString s)" if "s \<noteq> []" for s
  proof -
    define e where "e = int (length s)"
    define st where "st = max 0 (start_before s (max 0 (e - 4)) (e - 2))"
    obtain r w where d: "DecodeRuneInString (drop (nat st) s) = (r, w)"
      by (cases "DecodeRuneInString (drop (nat st) s)")
    have lt: "st < e"
      using sb [of s "max 0 (e - 4)" "e - 2"] that by (auto simp: st_def e_def)
    have "DecodeLastRuneInString s =
        (if byte_at s (nat (e - 1)) < RuneSelf then (byte_at s (nat (e - 1)), 1)
         else if st + int w \<noteq> e then (RuneError, 1) else (r, w))"
      using that d unfolding st_def e_def by (simp add: DecodeLastRuneInString_def Let_def)
    then show ?thesis using lt by (auto split: if_splits)
  qed
  show ?thesis
    apply (relation "measure (\<lambda>(f, s). length s)")
     apply simp
    subgoal for f c cs
      using pos [of "c # cs"] by (cases "DecodeLastRuneInString (c # cs)") auto
    done
qed

definition TrimSpace :: "string \<Rightarrow> string" where
  "TrimSpace s = TrimRightFunc IsSpace (TrimLeftFunc IsSpace s)"

text \<open>\<open>strings.HasPrefix\<close>: \<open>len(s) >= len(prefix) && s[:len(prefix)] == prefix\<close>.\<close>

definition HasPrefix :: "string \<Rightarrow> string \<Rightarrow> bool" where
  "HasPrefix s pre = (length pre \<le> length s \<and> take (length pre) s = pre)"

text \<open>
  \<open>strconv.Atoi\<close> on a 64-bit platform: an optional sign, then one or more decimal
  digits and nothing else (no underscores in base 10); a value outside the range of
  \<open>int64\<close> is an error, as is a syntax error. \<open>None\<close> is \<open>err != nil\<close>.
\<close>

definition is_digit :: "char \<Rightarrow> bool" where
  "is_digit c = (c \<in> set ''0123456789'')"

definition digit_val :: "char \<Rightarrow> nat" where
  "digit_val c = of_char c - 48"

definition digits_value :: "string \<Rightarrow> nat" where
  "digits_value ds = foldl (\<lambda>n ch. n * 10 + digit_val ch) 0 ds"

definition Atoi :: "string \<Rightarrow> int option" where
  "Atoi s =
     (let neg = (s \<noteq> [] \<and> hd s = CHR ''-'');
          ds = (if s \<noteq> [] \<and> (hd s = CHR ''-'' \<or> hd s = CHR ''+'') then tl s else s)
      in if ds = [] \<or> \<not> list_all is_digit ds then None
         else let n = (if neg then - int (digits_value ds) else int (digits_value ds))
              in if n < - (2 ^ 63) \<or> 2 ^ 63 - 1 < n then None else Some n)"

section \<open>The relational store\<close>

text \<open>
  The tables of \<open>store/sqlite.go\<close> that the verified operations read or write, each as
  the list of its rows in insertion order, restricted to the columns those operations
  touch. The \<open>created_at\<close> of a message is the text the driver stores for a
  \<open>time.Time\<close>, which is what SQL compares and orders, byte by byte; the \<open>updated_at\<close>
  of an app is a clock reading. \<open>channels\<close> holds the ids of the channels table.
  \<open>foreign_keys\<close> is SQLite's
  per-connection \<open>PRAGMA foreign_keys\<close> switch: \<open>REFERENCES\<close> clauses, and with them
  \<open>ON DELETE CASCADE\<close>, are enforced only while it is on.
\<close>

record user_row =
  u_id :: string
  u_username :: string
  u_status :: string

record message_row =
  m_id :: string
  m_channel_id :: string
  m_user_id :: string
  m_content :: string
  m_thread_id :: "string option"
  m_created_at :: string

record reaction_row =
  r_id :: string
  r_message_id :: string
  r_user_id :: string
  r_emoji :: string

record app_row =
  a_id :: string
  a_html_content :: string
  a_css_content :: string
  a_js_content :: string
  a_updated_at :: nat

record member_row =
  am_app_id :: string
  am_user_id :: string
  am_role :: string

record command_row =
  c_id :: string
  c_name :: string
  c_is_global :: bool
  c_created_by :: string
  c_enabled :: bool

record store =
  users :: "user_row list"
  channels :: "string list"
  messages :: "message_row list"
  reactions :: "reaction_row list"
  apps :: "app_row list"
  app_members :: "member_row list"
  custom_commands :: "command_row list"
  foreign_keys :: bool

text \<open>SQL \<open>LIMIT n\<close>: a negative \<open>n\<close> means no limit.\<close>

definition sql_limit :: "int \<Rightarrow> 'a list \<Rightarrow> 'a list" where
  "sql_limit n xs = (if n < 0 then xs else take (nat n) xs)"

section \<open>Pagination of a channel's messages\<close>

text \<open>
  \<open>Store.GetChannelMessagesBefore\<close>: the top-level messages of the channel whose author
  row exists (the \<open>JOIN users\<close>), whose \<open>created_at\<close> text is below the optional cursor
  (\<open>before\<close> is the text \<open>before.Format("2006-01-02 15:04:05.999999")\<close> bound to the
  statement), newest first, cut by \<open>LIMIT\<close>, then reversed into chronological order.
  Rows with equal \<open>created_at\<close> are taken in one fixed order here; SQLite promises none.
\<close>

definition GetChannelMessagesBefore ::
  "store \<Rightarrow> string \<Rightarrow> int \<Rightarrow> string option \<Rightarrow> message_row list" where
  "GetChannelMessagesBefore s channelID limit before =
     rev (sql_limit limit (rev (sort_key m_created_at
       (filter (\<lambda>m. m_channel_id m = channelID \<and> m_thread_id m = None
                     \<and> m_user_id m \<in> set (map u_id (users s))
                     \<and> (case before of None \<Rightarrow> True | Some t \<Rightarrow> m_created_at m < t))
          (messages s)))))"

definition GetChannelMessages :: "store \<Rightarrow> string \<Rightarrow> int \<Rightarrow> message_row list" where
  "GetChannelMessages s channelID limit = GetChannelMessagesBefore s channelID limit None"

text \<open>
  The window size chosen by \<open>MessageHandler.GetChannelMessages\<close> from the \<open>limit\<close>
  query parameter (\<open>l\<close>, empty when absent): it starts at 50 and is replaced only by
  a value that parses, is positive and is at most 100.
\<close>

definition query_limit :: "string \<Rightarrow> int" where
  "query_limit l =
     (if l \<noteq> [] then
        (case Atoi l of
           Some parsed \<Rightarrow> if parsed > 0 \<and> parsed \<le> 100 then parsed else 50
         | None \<Rightarrow> 50)
      else 50)"

datatype messages_response = HttpError nat string | JsonMessages "message_row list"

text \<open>
  The handler itself; \<open>before\<close> is the parsed \<open>before\<close> parameter (\<open>None\<close> when it
  is absent or matches none of the accepted time formats), as the text the store binds
  for it.
\<close>

definition GetChannelMessages_handler ::
  "store \<Rightarrow> string \<Rightarrow> string \<Rightarrow> string option \<Rightarrow> messages_response" where
  "GetChannelMessages_handler s channelID l before =
     (if channelID = [] then HttpError 400 ''Channel ID required''
      else let limit = query_limit l in
        (case before of
           Some t \<Rightarrow> JsonMessages (GetChannelMessagesBefore s channelID limit (Some t))
         | None \<Rightarrow> JsonMessages (GetChannelMessages s channelID limit)))"

text \<open>Reads the rows out of a response (none for an error response).\<close>

definition response_messages :: "messages_response \<Rightarrow> message_row list" where
  "response_messages r = (case r of JsonMessages ms \<Rightarrow> ms | HttpError code msg \<Rightarrow> [])"

section \<open>The per-app query endpoint\<close>

definition allowed :: "string list" where
  "allowed = [''SELECT'', ''INSERT'', ''UPDATE'', ''DELETE'', ''CREATE TABLE'', ''CREATE INDEX'']"

text \<open>The loop of \<open>AppsHandler.isAllowedQuery\<close> over the allowed prefixes.\<close>

fun any_prefix :: "string \<Rightarrow> string list \<Rightarrow> bool" where
  "any_prefix normalized [] = False"
| "any_prefix normalized (pre # rest) =
     (if HasPrefix normalized pre then True else any_prefix normalized rest)"

definition isAllowedQuery :: "case_tables \<Rightarrow> string \<Rightarrow> bool" where
  "isAllowedQuery tables query =
     (let normalized = ToUpper tables (TrimSpace query) in any_prefix normalized allowed)"

text \<open>
  \<open>models.AppQueryResponse\<close>. A cell value is kept abstract (\<open>'v\<close>); a row is a Go
  map from column names to cells.
\<close>

record 'v AppQueryResponse =
  Columns :: "string list"
  Rows :: "(string \<rightharpoonup> 'v) list"
  Error :: string

text \<open>
  The SQLite engine behind a per-app database is not part of the repository; it is a
  parameter. \<open>open_db\<close> is \<open>getAppDB\<close> (open or fetch the cached handle of an app),
  \<open>db_query\<close> is \<open>db.Query\<close> followed by reading all rows (columns and cells per row,
  with byte strings already coerced to text), \<open>db_exec\<close> is \<open>db.Exec\<close> returning the
  two cells "rows affected" and "last insert id". \<open>Inl\<close> is the error message.
\<close>

record ('db, 'p, 'v) sql_engine =
  open_db :: "string \<Rightarrow> string + 'db"
  db_query :: "'db \<Rightarrow> string \<Rightarrow> 'p list \<Rightarrow> string + (string list \<times> 'v list list)"
  db_exec :: "'db \<Rightarrow> string \<Rightarrow> 'p list \<Rightarrow> string + ('v \<times> 'v)"

definition executeQuery ::
  "case_tables \<Rightarrow> ('db, 'p, 'v) sql_engine \<Rightarrow> 'db \<Rightarrow> string \<Rightarrow> 'p list
     \<Rightarrow> string + 'v AppQueryResponse" where
  "executeQuery tables eng db query params =
     (let normalized = ToUpper tables (TrimSpace query) in
      if HasPrefix normalized ''SELECT'' then
        (case db_query eng db query params of
           Inl err \<Rightarrow> Inl err
         | Inr (columns, vals) \<Rightarrow>
             Inr \<lparr>Columns = columns,
                  Rows = map (\<lambda>values. foldl (\<lambda>row (col, val). row(col \<mapsto> val)) Map.empty
                                          (zip columns values)) vals,
                  Error = []\<rparr>)
      else
        (case db_exec eng db query params of
           Inl err \<Rightarrow> Inl err
         | Inr (rowsAffected, lastInsertID) \<Rightarrow>
             Inr \<lparr>Columns = [''rows_affected'', ''last_insert_id''],
                  Rows = [[''rows_affected'' \<mapsto> rowsAffected, ''last_insert_id'' \<mapsto> lastInsertID]],
                  Error = []\<rparr>))"

datatype 'v query_response = QueryHttpError nat string | QueryJson "'v AppQueryResponse"

definition not_allowed_message :: string where
  "not_allowed_message =
     ''Query type not allowed. Only SELECT, INSERT, UPDATE, DELETE, CREATE TABLE, CREATE INDEX are permitted.''"

definition error_response :: "string \<Rightarrow> 'v AppQueryResponse" where
  "error_response msg = \<lparr>Columns = [], Rows = [], Error = msg\<rparr>"

text \<open>
  \<open>AppsHandler.Query\<close>. \<open>isMember\<close> is the result of \<open>store.IsAppMember\<close> for the
  caller, \<open>body\<close> the decoded JSON body (\<open>None\<close> when decoding fails). The result is
  the response together with the list of statements handed to the engine.
\<close>

definition Query ::
  "case_tables \<Rightarrow> ('db, 'p, 'v) sql_engine \<Rightarrow> string \<Rightarrow> bool \<Rightarrow> (string \<times> 'p list) option
     \<Rightarrow> 'v query_response \<times> string list" where
  "Query tables eng appID isMember body =
     (if appID = [] then (QueryHttpError 400 ''App ID required'', [])
      else if \<not> isMember then (QueryHttpError 403 ''Not a member of this app'', [])
      else case body of
        None \<Rightarrow> (QueryHttpError 400 ''Invalid request body'', [])
      | Some (query, params) \<Rightarrow>
          if \<not> isAllowedQuery tables query then (QueryJson (error_response not_allowed_message), [])
          else (case open_db eng appID of
              Inl err \<Rightarrow>
                (QueryJson (error_response (''Failed to connect to app database: '' @ err)), [])
            | Inr db \<Rightarrow>
                (case executeQuery tables eng db query params of
                   Inl err \<Rightarrow> (QueryJson (error_response err), [query])
                 | Inr result \<Rightarrow> (QueryJson result, [query]))))"

section \<open>Command template interpolation\<close>

text \<open>
  \<open>strings.Fields\<close>: the maximal runs of code points that are no white space
  (\<open>unicode.IsSpace\<close>), in order. The scan keeps the bytes of the word read so far in
  \<open>cur\<close>.
\<close>

fun fields_from :: "string \<Rightarrow> (rune \<times> string) list \<Rightarrow> string list" where
  "fields_from cur [] = (if cur = [] then [] else [cur])"
| "fields_from cur ((r, bytes) # rest) =
     (if IsSpace r then (if cur = [] then fields_from [] rest else cur # fields_from [] rest)
      else fields_from (cur @ bytes) rest)"

definition Fields :: "string \<Rightarrow> string list" where
  "Fields s = fields_from [] (runes s)"

fun Join :: "string list \<Rightarrow> string \<Rightarrow> string" where
  "Join [] sep = []"
| "Join [x] sep = x"
| "Join (x # y # ys) sep = x @ sep @ Join (y # ys) sep"

text \<open>
  \<open>strings.ReplaceAll s old new\<close> for a non-empty \<open>old\<close>: scan from the left, replace
  each occurrence found and continue behind it. For an empty \<open>old\<close> Go inserts \<open>new\<close>
  at the beginning and behind every code point.
\<close>

function replace_from :: "string \<Rightarrow> string \<Rightarrow> string \<Rightarrow> string" where
  "replace_from old new [] = []"
| "replace_from old new (c # cs) =
     (if old \<noteq> [] \<and> HasPrefix (c # cs) old
      then new @ replace_from old new (drop (length old) (c # cs))
      else c # replace_from old new cs)"
  by pat_completeness auto
termination
  by (relation "measure (\<lambda>(old, new, s). length s)") auto

definition ReplaceAll :: "string \<Rightarrow> string \<Rightarrow> string \<Rightarrow> string" where
  "ReplaceAll s old new =
     (if old = [] then new @ concat (map (\<lambda>(c, bytes). bytes @ new) (runes s))
      else replace_from old new s)"

text \<open>
  \<open>url.QueryEscape\<close>: letters, digits and \<open>-_.~\<close> are kept, a space becomes \<open>+\<close>,
  every other byte becomes \<open>%XX\<close> in upper-case hexadecimal.
\<close>

definition lower_letters :: string where
  "lower_letters = ''abcdefghijklmnopqrstuvwxyz''"

definition upper_letters :: string where
  "upper_letters = ''ABCDEFGHIJKLMNOPQRSTUVWXYZ''"

definition unreserved :: "char \<Rightarrow> bool" where
  "unreserved c = (c \<in> set lower_letters \<or> c \<in> set upper_letters \<or> is_digit c \<or> c \<in> set ''-_.~'')"

definition upperhex :: string where
  "upperhex = ''0123456789ABCDEF''"

definition escape_byte :: "char \<Rightarrow> string" where
  "escape_byte c =
     (if c = CHR '' '' then ''+''
      else if unreserved c then [c]
      else [CHR ''%'', upperhex ! (of_char c div 16), upperhex ! (of_char c mod 16)])"

definition QueryEscape :: "string \<Rightarrow> string" where
  "QueryEscape s = concat (map escape_byte s)"

record InterpolationContext =
  Input :: string
  UserID :: string
  Username :: string
  DisplayName :: string
  ChannelID :: string
  ChannelName :: string

text \<open>
  The three renderings of \<open>time.Now()\<close> that \<open>interpolate\<close> substitutes: Unix seconds
  in decimal, the date, and the RFC 3339 date-time.
\<close>

record clock_text =
  unix_text :: string
  date_text :: string
  datetime_text :: string

definition encode :: "bool \<Rightarrow> string \<Rightarrow> string" where
  "encode urlEncode s = (if urlEncode then QueryEscape s else s)"

text \<open>
  One match of the pattern \<open>\{\{input\.(\d+)\}\}\<close> at the start of \<open>s\<close>: the digits
  of the group and the text behind the match. The digits are followed by \<open>}\<close>, which
  is no digit, so the greedy \<open>\d+\<close> is the longest run of digits.
\<close>

definition match_index :: "string \<Rightarrow> (string \<times> string) option" where
  "match_index s =
     (if HasPrefix s ''{{input.'' then
        (let r = drop 8 s; ds = takeWhile is_digit r; r' = dropWhile is_digit r
         in if ds \<noteq> [] \<and> HasPrefix r' ''}}'' then Some (ds, drop 2 r') else None)
      else None)"

text \<open>
  The callback handed to \<open>ReplaceAllStringFunc\<close>, on the digits of a match. \<open>None\<close> is
  the run-time panic of an index expression out of range (\<open>inputParts[idx]\<close> with a
  negative \<open>idx\<close>); the upper bound is checked by the code itself.
\<close>

definition index_replacement :: "bool \<Rightarrow> string list \<Rightarrow> string \<Rightarrow> string option" where
  "index_replacement urlEncode inputParts ds =
     (case Atoi ds of
        None \<Rightarrow> Some []
      | Some idx \<Rightarrow>
          if idx \<ge> int (length inputParts) then Some []
          else if idx < 0 then None
          else Some (encode urlEncode (inputParts ! nat idx)))"

text \<open>
  \<open>ReplaceAllStringFunc\<close>: the leftmost match is replaced by the callback's result and
  the scan continues behind it; a byte where no match starts is copied.
\<close>

function replace_index :: "(string \<Rightarrow> string option) \<Rightarrow> string \<Rightarrow> string option" where
  "replace_index repl [] = Some []"
| "replace_index repl (c # cs) =
     (case match_index (c # cs) of
        Some (ds, rest) \<Rightarrow>
          (case repl ds of
             None \<Rightarrow> None
           | Some r \<Rightarrow> map_option ((@) r) (replace_index repl rest))
      | None \<Rightarrow> map_option ((#) c) (replace_index repl cs))"
  by pat_completeness auto
termination
proof (relation "measure (\<lambda>(repl, s). length s)")
  fix repl :: "string \<Rightarrow> string option" and c :: char and cs x2 ds rest
  assume "match_index (c # cs) = Some x2" and "(ds, rest) = x2"
  then have "rest = drop 2 (dropWhile is_digit (drop 8 (c # cs)))"
    by (auto simp: match_index_def Let_def split: if_splits)
  moreover have "length (dropWhile is_digit (drop 8 (c # cs))) \<le> length (drop 8 (c # cs))"
    by (rule length_dropWhile_le)
  ultimately show "((repl, rest), (repl, c # cs)) \<in> measure (\<lambda>(repl, s). length s)"
    by simp
qed simp_all

text \<open>The substitutions of \<open>interpolate\<close> that follow the indexed words, in source order.\<close>

definition replace_rest :: "bool \<Rightarrow> string list \<Rightarrow> string \<Rightarrow> string" where
  "replace_rest urlEncode inputParts result =
     (if length inputParts > 1
      then ReplaceAll result ''{{input.rest}}'' (encode urlEncode (Join (tl inputParts) '' ''))
      else ReplaceAll result ''{{input.rest}}'' [])"

definition replace_variables :: "bool \<Rightarrow> InterpolationContext \<Rightarrow> clock_text \<Rightarrow> string \<Rightarrow> string" where
  "replace_variables urlEncode ctx now r0 =
     (let r1 = ReplaceAll r0 ''{{user.id}}'' (encode urlEncode (UserID ctx));
          r2 = ReplaceAll r1 ''{{user.username}}'' (encode urlEncode (Username ctx));
          r3 = ReplaceAll r2 ''{{user.displayName}}'' (encode urlEncode (DisplayName ctx));
          r4 = ReplaceAll r3 ''{{channel.id}}'' (encode urlEncode (ChannelID ctx));
          r5 = ReplaceAll r4 ''{{channel.name}}'' (encode urlEncode (ChannelName ctx));
          r6 = ReplaceAll r5 ''{{timestamp}}'' (unix_text now);
          r7 = ReplaceAll r6 ''{{date}}'' (date_text now)
      in ReplaceAll r7 ''{{datetime}}'' (datetime_text now))"

definition interpolate :: "clock_text \<Rightarrow> string \<Rightarrow> InterpolationContext \<Rightarrow> bool \<Rightarrow> string option" where
  "interpolate now template ctx urlEncode =
     (let inputParts = Fields (Input ctx);
          result = ReplaceAll template ''{{input}}'' (encode urlEncode (Input ctx))
      in case replace_index (index_replacement urlEncode inputParts) result of
           None \<Rightarrow> None
         | Some indexed \<Rightarrow>
             Some (replace_variables urlEncode ctx now (replace_rest urlEncode inputParts indexed)))"

section \<open>Custom commands\<close>

text \<open>
  \<open>Store.GetCommandByName\<close>: the rows with the given name that are enabled and either
  global or private to the user, ordered by \<open>is_global\<close> ascending (private rows first),
  first row only. \<open>None\<close> is \<open>sql.ErrNoRows\<close>. Among rows with equal \<open>is_global\<close>
  the model takes the one inserted first; SQLite promises no order there.
\<close>

definition GetCommandByName :: "store \<Rightarrow> string \<Rightarrow> string \<Rightarrow> command_row option" where
  "GetCommandByName s name userID =
     (case sql_limit 1 (sort_key c_is_global
             (filter (\<lambda>c. c_name c = name
                          \<and> ((c_is_global c = False \<and> c_created_by c = userID) \<or> c_is_global c = True)
                          \<and> c_enabled c = True)
                (custom_commands s))) of
        [] \<Rightarrow> None
      | cmd # rest \<Rightarrow> Some cmd)"

section \<open>Deleting a message\<close>

text \<open>
  One \<open>DELETE FROM messages WHERE ...\<close> statement. The schema declares
  \<open>messages.thread_id REFERENCES messages(id)\<close> (no action) and
  \<open>reactions.message_id REFERENCES messages(id) ON DELETE CASCADE\<close>. With
  \<open>foreign_keys\<close> on, the statement fails and changes nothing when a remaining message
  still refers to a deleted one, and otherwise also deletes the reactions on the
  deleted messages; with \<open>foreign_keys\<close> off the clauses have no effect.
\<close>

definition exec_delete_messages :: "(message_row \<Rightarrow> bool) \<Rightarrow> store \<Rightarrow> string + store" where
  "exec_delete_messages P s =
     (let gone = map m_id (filter P (messages s));
          kept = filter (\<lambda>m. \<not> P m) (messages s)
      in if foreign_keys s then
           (if list_ex (\<lambda>m. case m_thread_id m of Some t \<Rightarrow> t \<in> set gone | None \<Rightarrow> False) kept
            then Inl ''FOREIGN KEY constraint failed''
            else Inr (s\<lparr>messages := kept,
                        reactions := filter (\<lambda>r. r_message_id r \<notin> set gone) (reactions s)\<rparr>))
         else Inr (s\<lparr>messages := kept\<rparr>))"

text \<open>
  \<open>Store.DeleteMessage\<close>: two statements, each executed on its own (no transaction).
  The result is the store afterwards and the returned error, if any.
\<close>

definition DeleteMessage :: "store \<Rightarrow> string \<Rightarrow> store \<times> string option" where
  "DeleteMessage s mid =
     (case exec_delete_messages (\<lambda>m. m_thread_id m = Some mid) s of
        Inl err \<Rightarrow> (s, Some err)
      | Inr s1 \<Rightarrow>
          (case exec_delete_messages (\<lambda>m. m_id m = mid) s1 of
             Inl err \<Rightarrow> (s1, Some err)
           | Inr s2 \<Rightarrow> (s2, None)))"

section \<open>The fan-out hub\<close>

text \<open>
  The events fanned out to clients (\<open>models.WSMessage\<close>: a type tag and its payload).
  A frame on a connection's queue is the JSON serialisation of such a message; the
  serialisation is determined by the message and cannot fail for these payloads, so a
  frame is modelled by the message itself.
\<close>

datatype ws_message =
    UserOnline string
  | UserOffline string
  | Typing string string
  | NewMessage message_row
  | StreamStart string string user_row "string option"
  | StreamDelta string string string string
  | StreamEnd string string string
  | AppCodeUpdated string string string string nat

text \<open>
  A \<open>Client\<close>: its user, the contents of its buffered \<open>send\<close> channel (capacity 256)
  and the app ids it is subscribed to. A client is identified by its address.
\<close>

record client =
  cl_userID :: string
  cl_send :: "ws_message list"
  cl_apps :: "string list"

text \<open>
  The \<open>Hub\<close>: \<open>clients\<close> is the registry \<open>map[*Client]bool\<close>, each registered
  address with the object it points to, in the (arbitrary) iteration order;
  \<open>broadcast\<close> holds the frames sent to the \<open>broadcast\<close> channel and not yet taken by
  the coordinator, including those of \<open>go BroadcastAll\<close> goroutines still waiting to
  send; \<open>closed\<close> lists the clients whose \<open>send\<close> channel has been closed.
\<close>

record hub =
  clients :: "(nat \<times> client) list"
  broadcast :: "ws_message list"
  closed :: "nat list"
  hstore :: store

definition UpdateUserStatus :: "store \<Rightarrow> string \<Rightarrow> string \<Rightarrow> store" where
  "UpdateUserStatus s userID status =
     s\<lparr>users := map (\<lambda>u. if u_id u = userID then u\<lparr>u_status := status\<rparr> else u) (users s)\<rparr>"

text \<open>
  \<open>select { case client.send <- data: ... default: ... }\<close>: the frame is appended when
  the buffer has room; otherwise the \<open>default\<close> branch runs at once (\<open>None\<close>).
\<close>

definition try_send :: "ws_message \<Rightarrow> client \<Rightarrow> client option" where
  "try_send data c =
     (if length (cl_send c) < 256 then Some (c\<lparr>cl_send := cl_send c @ [data]\<rparr>) else None)"

definition has_user :: "string \<Rightarrow> (nat \<times> client) list \<Rightarrow> bool" where
  "has_user userID cs = list_ex (\<lambda>(q, d). cl_userID d = userID) cs"

definition delete_client :: "nat \<Rightarrow> (nat \<times> client) list \<Rightarrow> (nat \<times> client) list" where
  "delete_client p cs = filter (\<lambda>(q, d). q \<noteq> p) cs"

text \<open>\<open>BroadcastAll\<close>: hand the frame to the coordinator.\<close>

definition BroadcastAll :: "hub \<Rightarrow> ws_message \<Rightarrow> hub" where
  "BroadcastAll h msg = h\<lparr>broadcast := broadcast h @ [msg]\<rparr>"

text \<open>\<open>Hub.Run\<close>, case \<open>client := <-h.register\<close>, for the client at address \<open>p\<close>.\<close>

definition run_register :: "nat \<Rightarrow> client \<Rightarrow> hub \<Rightarrow> hub" where
  "run_register p c h =
     (let isFirstConnection = \<not> has_user (cl_userID c) (clients h);
          h1 = h\<lparr>clients := (if p \<in> set (map fst (clients h)) then clients h
                                else clients h @ [(p, c)])\<rparr>;
          h2 = h1\<lparr>hstore := UpdateUserStatus (hstore h1) (cl_userID c) ''online''\<rparr>
      in if isFirstConnection then BroadcastAll h2 (UserOnline (cl_userID c)) else h2)"

text \<open>\<open>Hub.Run\<close>, case \<open>client := <-h.unregister\<close>.\<close>

definition run_unregister :: "nat \<Rightarrow> hub \<Rightarrow> hub" where
  "run_unregister p h =
     (case map_of (clients h) p of
        None \<Rightarrow> h
      | Some c \<Rightarrow>
          (let h1 = h\<lparr>clients := delete_client p (clients h), closed := closed h @ [p]\<rparr>;
               hasOtherConnections = has_user (cl_userID c) (clients h1)
           in if \<not> hasOtherConnections
              then BroadcastAll (h1\<lparr>hstore := UpdateUserStatus (hstore h1) (cl_userID c) ''offline''\<rparr>)
                     (UserOffline (cl_userID c))
              else h1))"

text \<open>
  The fan-out pass shared by the coordinator's broadcast case, \<open>BroadcastToChannel\<close>
  and \<open>BroadcastToApp\<close>: every selected client gets the frame or, when its buffer is
  full, is appended to \<open>staleClients\<close>.
\<close>

fun fan_out ::
  "(client \<Rightarrow> bool) \<Rightarrow> ws_message \<Rightarrow> (nat \<times> client) list \<Rightarrow> (nat \<times> client) list \<times> nat list" where
  "fan_out sel data [] = ([], [])"
| "fan_out sel data ((p, c) # rest) =
     (let (rest', stale) = fan_out sel data rest
      in if sel c then
           (case try_send data c of
              Some c' \<Rightarrow> ((p, c') # rest', stale)
            | None \<Rightarrow> ((p, c) # rest', p # stale))
         else ((p, c) # rest', stale))"

text \<open>The loop over \<open>staleClients\<close>: close and delete each one that is still registered.\<close>

fun remove_stale :: "nat list \<Rightarrow> hub \<Rightarrow> hub" where
  "remove_stale [] h = h"
| "remove_stale (p # ps) h =
     remove_stale ps
       (if p \<in> set (map fst (clients h))
        then h\<lparr>closed := closed h @ [p], clients := delete_client p (clients h)\<rparr>
        else h)"

definition fan_out_evict :: "(client \<Rightarrow> bool) \<Rightarrow> ws_message \<Rightarrow> hub \<Rightarrow> hub" where
  "fan_out_evict sel data h =
     (let (cs, staleClients) = fan_out sel data (clients h);
          h1 = h\<lparr>clients := cs\<rparr>
      in if length staleClients > 0 then remove_stale staleClients h1 else h1)"

text \<open>\<open>Hub.Run\<close>, case \<open>message := <-h.broadcast\<close>; nothing happens while the channel is empty.\<close>

definition run_broadcast :: "hub \<Rightarrow> hub" where
  "run_broadcast h =
     (case broadcast h of
        [] \<Rightarrow> h
      | message # pending \<Rightarrow> fan_out_evict (\<lambda>c. True) message (h\<lparr>broadcast := pending\<rparr>))"

definition BroadcastToChannel :: "hub \<Rightarrow> string \<Rightarrow> ws_message \<Rightarrow> hub" where
  "BroadcastToChannel h channelID msg = fan_out_evict (\<lambda>c. True) msg h"

definition isSubscribedToApp :: "client \<Rightarrow> string \<Rightarrow> bool" where
  "isSubscribedToApp c appID = (appID \<in> set (cl_apps c))"

definition BroadcastToApp :: "hub \<Rightarrow> string \<Rightarrow> ws_message \<Rightarrow> hub" where
  "BroadcastToApp h appID msg = fan_out_evict (\<lambda>c. isSubscribedToApp c appID) msg h"

text \<open>\<open>BroadcastToChannelExcept\<close>: a full buffer is skipped (\<open>// Buffer full, skip\<close>).\<close>

fun send_except :: "nat \<Rightarrow> ws_message \<Rightarrow> (nat \<times> client) list \<Rightarrow> (nat \<times> client) list" where
  "send_except except data [] = []"
| "send_except except data ((p, c) # rest) =
     (if p \<noteq> except then
        (case try_send data c of
           Some c' \<Rightarrow> (p, c') # send_except except data rest
         | None \<Rightarrow> (p, c) # send_except except data rest)
      else (p, c) # send_except except data rest)"

definition BroadcastToChannelExcept :: "hub \<Rightarrow> string \<Rightarrow> nat \<Rightarrow> ws_message \<Rightarrow> hub" where
  "BroadcastToChannelExcept h channelID except msg =
     h\<lparr>clients := send_except except msg (clients h)\<rparr>"

text \<open>
  \<open>SendToUser\<close>: a client of the user whose buffer is full is closed and deleted inside
  the loop. The result of the loop is the registry and the clients closed.
\<close>

fun send_user :: "string \<Rightarrow> ws_message \<Rightarrow> (nat \<times> client) list \<Rightarrow> (nat \<times> client) list \<times> nat list" where
  "send_user userID data [] = ([], [])"
| "send_user userID data ((p, c) # rest) =
     (let (rest', gone) = send_user userID data rest
      in if cl_userID c = userID then
           (case try_send data c of
              Some c' \<Rightarrow> ((p, c') # rest', gone)
            | None \<Rightarrow> (rest', p # gone))
         else ((p, c) # rest', gone))"

definition SendToUser :: "hub \<Rightarrow> string \<Rightarrow> ws_message \<Rightarrow> hub" where
  "SendToUser h userID msg =
     (let (cs, gone) = send_user userID msg (clients h)
      in h\<lparr>clients := cs, closed := closed h @ gone\<rparr>)"

text \<open>The number of registered connections of a user.\<close>

definition connections :: "hub \<Rightarrow> string \<Rightarrow> nat" where
  "connections h userID = length (filter (\<lambda>(q, d). cl_userID d = userID) (clients h))"

section \<open>The streaming AI mediator\<close>

subsection \<open>The upstream stream\<close>

text \<open>
  What \<open>json.Unmarshal\<close> makes of the data of one server-sent event, as far as the
  client reads it: \<open>event["type"]\<close> (empty when missing or no string),
  \<open>event["delta"]\<close> and \<open>event["text"]\<close> when they are strings, and
  \<open>event["error"]["message"]\<close> when \<open>error\<close> is an object with a string message.
\<close>

record json_event =
  ev_type :: string
  ev_delta :: "string option"
  ev_text :: "string option"
  ev_error :: "string option"

text \<open>
  The answer of the provider's endpoint to one request: the request could not be sent,
  a status other than 200 with its body, or status 200 with the lines the scanner
  yields and whether the scanner holds an error once the loop over them is left
  (\<open>scanner.Err() != nil\<close>).
\<close>

datatype upstream = SendFailed | BadStatus nat string | EventStream "string list" bool

text \<open>
  The provider and the JSON decoder are not part of the repository: \<open>respond\<close> maps
  the request (model, input messages, instructions) to the endpoint's answer,
  \<open>unmarshal\<close> is \<open>json.Unmarshal\<close> on the data of an event (\<open>None\<close> on a syntax
  error).
\<close>

record InputMessage =
  Role :: string
  Content :: string

record provider =
  respond :: "string \<Rightarrow> InputMessage list \<Rightarrow> string \<Rightarrow> upstream"
  unmarshal :: "string \<Rightarrow> json_event option"

record OpenAIClient =
  apiKey :: string
  model :: string

datatype ai_error = NoApiKey | RequestFailed | ApiError nat string | StreamingError string | ReadError

text \<open>
  One pass through the body of the scanning loop of \<open>StreamResponseWithContext\<close>, as
  the action it takes: go on to the next line, leave the loop (\<open>[DONE]\<close>), append a
  delta and call the callback, replace the accumulated text, or return an error.
\<close>

datatype step = Continue | Break | Emit string | Replace string | Fail string

definition loop_body :: "(string \<Rightarrow> json_event option) \<Rightarrow> string \<Rightarrow> step" where
  "loop_body dec line =
     (if line = [] \<or> HasPrefix line '':'' then Continue
      else if HasPrefix line ''data: '' then
        (let data = drop 6 line in
         if data = ''[DONE]'' then Break
         else case dec data of
           None \<Rightarrow> Continue
         | Some event \<Rightarrow>
             if ev_type event = ''response.output_text.delta'' then
               (case ev_delta event of Some delta \<Rightarrow> Emit delta | None \<Rightarrow> Continue)
             else if ev_type event = ''response.output_text.done'' then
               (case ev_text event of Some txt \<Rightarrow> Replace txt | None \<Rightarrow> Continue)
             else if ev_type event = ''error'' then
               (case ev_error event of Some msg \<Rightarrow> Fail msg | None \<Rightarrow> Continue)
             else Continue)
      else Continue)"

text \<open>
  The loop \<open>for scanner.Scan()\<close> with the accumulator \<open>fullText\<close>. The callback acts on
  the caller's state \<open>st\<close>. The loop ends by an error return, by \<open>break\<close>, or because
  the scanner has no more lines; behind the loop, on either of the last two ways out,
  \<open>scanner.Err()\<close> is checked.
\<close>

datatype scan_end = Returned ai_error | Stopped string | Exhausted string

fun scan ::
  "(string \<Rightarrow> json_event option) \<Rightarrow> (string \<Rightarrow> string \<Rightarrow> 'st \<Rightarrow> 'st) \<Rightarrow> string list \<Rightarrow> string \<Rightarrow> 'st
     \<Rightarrow> scan_end \<times> 'st" where
  "scan dec callback [] fullText st = (Exhausted fullText, st)"
| "scan dec callback (line # rest) fullText st =
     (case loop_body dec line of
        Continue \<Rightarrow> scan dec callback rest fullText st
      | Break \<Rightarrow> (Stopped fullText, st)
      | Emit delta \<Rightarrow>
          scan dec callback rest (fullText @ delta) (callback delta (fullText @ delta) st)
      | Replace txt \<Rightarrow> scan dec callback rest txt st
      | Fail msg \<Rightarrow> (Returned (StreamingError msg), st))"

definition StreamResponseWithContext ::
  "provider \<Rightarrow> OpenAIClient \<Rightarrow> InputMessage list \<Rightarrow> string \<Rightarrow> (string \<Rightarrow> string \<Rightarrow> 'st \<Rightarrow> 'st) \<Rightarrow> 'st
     \<Rightarrow> (ai_error + string) \<times> 'st" where
  "StreamResponseWithContext prov c msgs systemPrompt callback st =
     (if apiKey c = [] then (Inl NoApiKey, st)
      else case respond prov (model c) msgs systemPrompt of
        SendFailed \<Rightarrow> (Inl RequestFailed, st)
      | BadStatus code body \<Rightarrow> (Inl (ApiError code body), st)
      | EventStream lines read_error \<Rightarrow>
          (case scan (unmarshal prov) callback lines [] st of
             (Returned err, st') \<Rightarrow> (Inl err, st')
           | (Stopped fullText, st') \<Rightarrow>
               if read_error then (Inl ReadError, st') else (Inr fullText, st')
           | (Exhausted fullText, st') \<Rightarrow>
               if read_error then (Inl ReadError, st') else (Inr fullText, st')))"

subsection \<open>The message handler\<close>

record Bot =
  bot_ID :: string
  bot_Name :: string
  bot_DisplayName :: string
  bot_Provider :: string

text \<open>
  The state a bot response touches: the store, the hub (\<open>None\<close> is a \<open>nil\<close> hub;
  otherwise the calls of \<open>BroadcastToChannel\<close> made on it so far, channel and message,
  in order), the registered AI clients, and the time of the last bot response per
  channel.
\<close>

record MessageHandler =
  mh_store :: store
  mh_hub :: "(string \<times> ws_message) list option"
  mh_aiClients :: "string \<Rightarrow> OpenAIClient option"
  mh_lastBotResponse :: "string \<Rightarrow> (Bot \<times> nat) option"

text \<open>\<open>if h.hub != nil { h.hub.BroadcastToChannel(channelID, msg) }\<close>\<close>

definition hub_broadcast :: "string \<Rightarrow> ws_message \<Rightarrow> MessageHandler \<Rightarrow> MessageHandler" where
  "hub_broadcast channelID msg h =
     (case mh_hub h of
        None \<Rightarrow> h
      | Some calls \<Rightarrow> h\<lparr>mh_hub := Some (calls @ [(channelID, msg)])\<rparr>)"

definition GetUserByID :: "store \<Rightarrow> string \<Rightarrow> user_row option" where
  "GetUserByID s uid = find (\<lambda>u. u_id u = uid) (users s)"

text \<open>
  \<open>Store.CreateMessage\<close> with the identifier and time it draws (\<open>uuid.New()\<close>,
  \<open>time.Now()\<close>). The \<open>INSERT\<close> fails when the identifier is taken and, with
  \<open>foreign_keys\<close> on, when the channel, the author or the parent message does not
  exist.
\<close>

definition CreateMessage ::
  "store \<Rightarrow> string \<Rightarrow> string \<Rightarrow> string \<Rightarrow> string \<Rightarrow> string \<Rightarrow> string option
     \<Rightarrow> (message_row \<times> store) option" where
  "CreateMessage s new_id now channelID userID content threadID =
     (let msg = \<lparr>m_id = new_id, m_channel_id = channelID, m_user_id = userID, m_content = content,
                  m_thread_id = threadID, m_created_at = now\<rparr>
      in if new_id \<in> set (map m_id (messages s)) then None
         else if foreign_keys s
                 \<and> (channelID \<notin> set (channels s) \<or> userID \<notin> set (map u_id (users s))
                      \<or> (case threadID of Some t \<Rightarrow> t \<notin> set (map m_id (messages s)) | None \<Rightarrow> False))
         then None
         else Some (msg, s\<lparr>messages := messages s @ [msg]\<rparr>))"

definition UpdateMessageContent :: "store \<Rightarrow> string \<Rightarrow> string \<Rightarrow> store" where
  "UpdateMessageContent s messageID content =
     s\<lparr>messages := map (\<lambda>m. if m_id m = messageID then m\<lparr>m_content := content\<rparr> else m) (messages s)\<rparr>"

definition recordBotResponse :: "string \<Rightarrow> Bot \<Rightarrow> nat \<Rightarrow> MessageHandler \<Rightarrow> MessageHandler" where
  "recordBotResponse channelID abot now h =
     h\<lparr>mh_lastBotResponse := (mh_lastBotResponse h)(channelID \<mapsto> (abot, now))\<rparr>"

definition apostrophe :: string where
  "apostrophe = [CHR 0x27]"

definition persona_prompt :: "Bot \<Rightarrow> string" where
  "persona_prompt abot = ''You are '' @ bot_DisplayName abot
     @ '', a helpful AI assistant in a team chat. Keep responses concise and helpful. You''
     @ apostrophe @ ''re responding in a channel where multiple people may be chatting.''"

definition follow_up_prompt :: string where
  "follow_up_prompt = '' This is a follow-up message in an ongoing conversation. Only respond if the message is relevant to you or the conversation you were having. If the message is not directed at you or doesn''
     @ apostrophe @ ''t need your input, respond with just '' @ apostrophe @ ''pass'' @ apostrophe
     @ '' (lowercase, nothing else).''"

definition apology :: string where
  "apology = ''Sorry, I'' @ apostrophe
     @ ''m having trouble connecting right now. Please try again later.''"

text \<open>
  The conversation context: the recent messages from last to first, without those whose
  text equals the current message, each tagged by its author, then the current message.
\<close>

definition build_context :: "message_row list \<Rightarrow> string \<Rightarrow> Bot \<Rightarrow> InputMessage list" where
  "build_context recentMessages userMessage abot =
     map (\<lambda>msg. \<lparr>Role = (if m_user_id msg = bot_ID abot then ''assistant'' else ''user''),
                   Content = m_content msg\<rparr>)
       (filter (\<lambda>msg. m_content msg \<noteq> userMessage) (rev recentMessages))
     @ [\<lparr>Role = ''user'', Content = userMessage\<rparr>]"

definition system_prompt :: "Bot \<Rightarrow> bool \<Rightarrow> string" where
  "system_prompt abot isFollowUp =
     persona_prompt abot @ (if isFollowUp then follow_up_prompt else [])"

text \<open>
  What one run draws from its environment: the identifier and creation time of the
  placeholder, and the time at which the response is recorded.
\<close>

record run_clock =
  new_uuid :: string
  created :: string
  responded :: nat

definition sendMentionedBotResponse ::
  "case_tables \<Rightarrow> provider \<Rightarrow> run_clock \<Rightarrow> MessageHandler \<Rightarrow> string \<Rightarrow> string \<Rightarrow> string option
     \<Rightarrow> Bot \<Rightarrow> bool \<Rightarrow> MessageHandler" where
  "sendMentionedBotResponse tables prov clk h channelID userMessage threadID abot isFollowUp =
     (case mh_aiClients h (bot_Provider abot) of
        None \<Rightarrow> h
      | Some c \<Rightarrow>
     (case GetUserByID (mh_store h) (bot_ID abot) of
        None \<Rightarrow> h
      | Some botUser \<Rightarrow>
     (let recentMessages = GetChannelMessages (mh_store h) channelID 4;
          contextMessages = build_context recentMessages userMessage abot;
          systemPrompt = system_prompt abot isFollowUp
      in case CreateMessage (mh_store h) (new_uuid clk) (created clk) channelID (bot_ID abot) [] threadID of
        None \<Rightarrow> h
      | Some (msg, s1) \<Rightarrow>
     (let h1 = hub_broadcast channelID (StreamStart (m_id msg) channelID botUser threadID)
                 (h\<lparr>mh_store := s1\<rparr>);
          (res, h2) = StreamResponseWithContext prov c contextMessages systemPrompt
                 (\<lambda>delta fullText. hub_broadcast channelID
                    (StreamDelta (m_id msg) channelID delta fullText)) h1;
          finalContent = (case res of Inl err \<Rightarrow> apology | Inr txt \<Rightarrow> txt)
      in if isFollowUp \<and> TrimSpace (ToLower tables finalContent) = ''pass'' then
           hub_broadcast channelID (StreamEnd (m_id msg) channelID [])
             (h2\<lparr>mh_store := fst (DeleteMessage (mh_store h2) (m_id msg))\<rparr>)
         else
           (let h3 = h2\<lparr>mh_store := UpdateMessageContent (mh_store h2) (m_id msg) finalContent\<rparr>;
                msg' = msg\<lparr>m_content := finalContent\<rparr>;
                h4 = hub_broadcast channelID (StreamEnd (m_id msg) channelID finalContent) h3;
                h5 = hub_broadcast channelID (NewMessage msg') h4
            in recordBotResponse channelID abot (responded clk) h5)))))"





subsection \<open>Observations of a run\<close>

text \<open>
  The finalized text of a run and the callback invocations (delta and accumulated
  text) it makes, read off \<open>StreamResponseWithContext\<close> itself by running it with a
  callback that does nothing and with one that records its arguments.
\<close>

definition stream_result ::
  "provider \<Rightarrow> OpenAIClient \<Rightarrow> InputMessage list \<Rightarrow> string \<Rightarrow> ai_error + string" where
  "stream_result prov c msgs systemPrompt =
     fst (StreamResponseWithContext prov c msgs systemPrompt (\<lambda>delta fullText u. u) ())"

definition final_content :: "provider \<Rightarrow> OpenAIClient \<Rightarrow> InputMessage list \<Rightarrow> string \<Rightarrow> string" where
  "final_content prov c msgs systemPrompt =
     (case stream_result prov c msgs systemPrompt of
        Inl err \<Rightarrow> apology
      | Inr txt \<Rightarrow> txt)"

definition delta_calls ::
  "provider \<Rightarrow> OpenAIClient \<Rightarrow> InputMessage list \<Rightarrow> string \<Rightarrow> (string \<times> string) list" where
  "delta_calls prov c msgs systemPrompt =
     snd (StreamResponseWithContext prov c msgs systemPrompt
            (\<lambda>delta fullText calls. calls @ [(delta, fullText)]) [])"







section \<open>The git endpoint: receive-pack\<close>

text \<open>
  A repository as go-git presents it: references by name and objects by hash. Of a
  commit only its tree matters here; a tree is its entries, name and hash, in order.
  Writing a reference goes to the repository's storage and can fail there;
  \<open>reference_error\<close> gives the error \<open>Storer.SetReference\<close> returns for a reference of
  that name (\<open>None\<close> when it is stored).
\<close>

datatype git_object = Blob string | Tree "(string \<times> string) list" | Commit string

datatype reference = HashReference string | SymbolicReference string

record repository =
  refs :: "string \<Rightarrow> reference option"
  objects :: "string \<Rightarrow> git_object option"
  reference_error :: "string \<Rightarrow> string option"

text \<open>
  \<open>repo.Head()\<close>: the reference \<open>HEAD\<close>, followed through symbolic references to a
  hash; go-git gives up after 1024 steps. \<open>None\<close> is the error.
\<close>

fun resolveReference :: "nat \<Rightarrow> (string \<Rightarrow> reference option) \<Rightarrow> string \<Rightarrow> string option" where
  "resolveReference n rs name =
     (if n = 0 then None
      else case rs name of
        None \<Rightarrow> None
      | Some (HashReference hash) \<Rightarrow> Some hash
      | Some (SymbolicReference target) \<Rightarrow> resolveReference (n - 1) rs target)"

definition Head :: "repository \<Rightarrow> string option" where
  "Head repo = resolveReference 1025 (refs repo) ''HEAD''"

text \<open>
  The loop of \<open>syncGitToDatabase\<close> over the tree entries: an entry whose hash is no
  blob of the repository is skipped, a blob named \<open>index.html\<close>, \<open>styles.css\<close> or
  \<open>script.js\<close> sets the corresponding content.
\<close>

fun extract_files ::
  "repository \<Rightarrow> (string \<times> string) list \<Rightarrow> string \<times> string \<times> string \<Rightarrow> string \<times> string \<times> string" where
  "extract_files repo [] (htmlContent, cssContent, jsContent) = (htmlContent, cssContent, jsContent)"
| "extract_files repo ((name, hash) # entries) (htmlContent, cssContent, jsContent) =
     (case objects repo hash of
        Some (Blob content) \<Rightarrow>
          if name = ''index.html'' then extract_files repo entries (content, cssContent, jsContent)
          else if name = ''styles.css'' then extract_files repo entries (htmlContent, content, jsContent)
          else if name = ''script.js'' then extract_files repo entries (htmlContent, cssContent, content)
          else extract_files repo entries (htmlContent, cssContent, jsContent)
      | _ \<Rightarrow> extract_files repo entries (htmlContent, cssContent, jsContent))"

definition UpdateAppCode :: "store \<Rightarrow> string \<Rightarrow> string \<Rightarrow> string \<Rightarrow> string \<Rightarrow> nat \<Rightarrow> store" where
  "UpdateAppCode s appID htmlContent cssContent jsContent now =
     s\<lparr>apps := map (\<lambda>a. if a_id a = appID
                          then a\<lparr>a_html_content := htmlContent, a_css_content := cssContent,
                                 a_js_content := jsContent, a_updated_at := now\<rparr>
                          else a) (apps s)\<rparr>"

text \<open>
  \<open>Store.DeleteApp\<close>: one \<open>DELETE FROM apps\<close>. The schema declares
  \<open>app_members.app_id REFERENCES apps(id) ON DELETE CASCADE\<close>, so with \<open>foreign_keys\<close>
  on the memberships of the app go with it; with \<open>foreign_keys\<close> off they stay.
\<close>

definition DeleteApp :: "store \<Rightarrow> string \<Rightarrow> store" where
  "DeleteApp s appID =
     (let s1 = s\<lparr>apps := filter (\<lambda>a. a_id a \<noteq> appID) (apps s)\<rparr>
      in if foreign_keys s
         then s1\<lparr>app_members := filter (\<lambda>m. am_app_id m \<noteq> appID) (app_members s1)\<rparr>
         else s1)"

definition GetApp :: "store \<Rightarrow> string \<Rightarrow> app_row option" where
  "GetApp s appID = find (\<lambda>a. a_id a = appID) (apps s)"

definition GetAppMemberRole :: "store \<Rightarrow> string \<Rightarrow> string \<Rightarrow> string option" where
  "GetAppMemberRole s appID userID =
     map_option am_role (find (\<lambda>r. am_app_id r = appID \<and> am_user_id r = userID) (app_members s))"

text \<open>\<open>syncGitToDatabase\<close>; \<open>Inl\<close> is the error returned.\<close>

definition syncGitToDatabase :: "store \<Rightarrow> string \<Rightarrow> repository \<Rightarrow> nat \<Rightarrow> string + store" where
  "syncGitToDatabase s appID repo now =
     (case Head repo of
        None \<Rightarrow> Inl ''failed to get HEAD''
      | Some hash \<Rightarrow>
          (case objects repo hash of
             Some (Commit treeHash) \<Rightarrow>
               (case objects repo treeHash of
                  Some (Tree entries) \<Rightarrow>
                    (case extract_files repo entries ([], [], []) of
                       (htmlContent, cssContent, jsContent) \<Rightarrow>
                         Inr (UpdateAppCode s appID htmlContent cssContent jsContent now))
                | _ \<Rightarrow> Inl ''failed to get tree'')
           | _ \<Rightarrow> Inl ''failed to get commit''))"

text \<open>
  What the handler sends out, in order: a call of \<open>hub.BroadcastToApp\<close>, a pkt-line
  or a flush packet written to the response, or an HTTP error.
\<close>

datatype emission = Sent string ws_message | PktLine string | Flush | HttpFail nat string

text \<open>The bytes of a response item: a pkt-line is \<open>%04x\<close> of its length plus 4, then the text.\<close>

definition hex_digit :: "nat \<Rightarrow> char" where
  "hex_digit n = ''0123456789abcdef'' ! n"

fun hex :: "nat \<Rightarrow> string" where
  "hex n = (if n < 16 then [hex_digit n] else hex (n div 16) @ [hex_digit (n mod 16)])"

definition writePacketLine :: "string \<Rightarrow> string" where
  "writePacketLine s =
     (let digits = hex (length s + 4) in replicate (4 - length digits) CHR ''0'' @ digits @ s)"

definition response_bytes :: "emission \<Rightarrow> string" where
  "response_bytes e =
     (case e of PktLine s \<Rightarrow> writePacketLine s | Flush \<Rightarrow> ''0000'' | _ \<Rightarrow> [])"

definition newline :: string where
  "newline = [CHR 0x0A]"

definition sendReceivePackError :: "string \<Rightarrow> emission list" where
  "sendReceivePackError msg = [PktLine (''unpack '' @ msg @ newline), Flush]"

record receivePackCommand =
  OldHash :: string
  NewHash :: string
  RefName :: string

definition sendReceivePackSuccess :: "receivePackCommand list \<Rightarrow> emission list" where
  "sendReceivePackSuccess commands =
     PktLine (''unpack ok'' @ newline)
       # map (\<lambda>cmd. PktLine (''ok '' @ RefName cmd @ newline)) commands @ [Flush]"

text \<open>\<open>broadcastCodeUpdate\<close>; \<open>hub\<close> tells whether the handler's hub is non-nil.\<close>

definition broadcastCodeUpdate :: "bool \<Rightarrow> store \<Rightarrow> string \<Rightarrow> emission list" where
  "broadcastCodeUpdate hub s appID =
     (case GetApp s appID of
        None \<Rightarrow> []
      | Some app \<Rightarrow>
          if hub then [Sent appID (AppCodeUpdated appID (a_html_content app) (a_css_content app)
                                     (a_js_content app) (a_updated_at app))]
          else [])"

definition authorizeWrite :: "store \<Rightarrow> string \<Rightarrow> string \<Rightarrow> string option" where
  "authorizeWrite s appID userID =
     (case GetAppMemberRole s appID userID of
        None \<Rightarrow> Some ''not a member of this app''
      | Some role \<Rightarrow>
          if role \<noteq> ''owner'' \<and> role \<noteq> ''admin''
          then Some ''insufficient permissions: only owners and admins can push''
          else None)"

text \<open>
  \<open>applyPackfile\<close> on the scanned pack: the header cannot be read, or the objects come
  one by one, each either an error (unreadable, or a delta object) or an object with its
  hash, which is stored at once. Objects stored before an error stay in the repository.
\<close>

datatype packfile = BadHeader string | PackObjects "(string + string \<times> git_object) list"

fun store_objects :: "(string + string \<times> git_object) list \<Rightarrow> repository \<Rightarrow> string option \<times> repository" where
  "store_objects [] repo = (None, repo)"
| "store_objects (Inl err # items) repo = (Some err, repo)"
| "store_objects (Inr (hash, obj) # items) repo =
     store_objects items (repo\<lparr>objects := (objects repo)(hash \<mapsto> obj)\<rparr>)"

definition applyPackfile :: "repository \<Rightarrow> packfile \<Rightarrow> string option \<times> repository" where
  "applyPackfile repo pack =
     (case pack of
        BadHeader err \<Rightarrow> (Some err, repo)
      | PackObjects items \<Rightarrow> store_objects items repo)"

text \<open>\<open>updateRef\<close>: the error of \<open>SetReference\<close>, if any, and the repository afterwards.\<close>

definition updateRef :: "repository \<Rightarrow> receivePackCommand \<Rightarrow> string option \<times> repository" where
  "updateRef repo cmd =
     (case reference_error repo (RefName cmd) of
        Some err \<Rightarrow> (Some err, repo)
      | None \<Rightarrow> (None, repo\<lparr>refs := (refs repo)(RefName cmd \<mapsto> HashReference (NewHash cmd))\<rparr>))"

text \<open>
  The loop \<open>for _, cmd := range commands\<close> of \<open>ReceivePack\<close>: it stops at the first
  command whose reference cannot be written; the references written before stay.
\<close>

fun update_refs :: "receivePackCommand list \<Rightarrow> repository \<Rightarrow> string option \<times> repository" where
  "update_refs [] repo = (None, repo)"
| "update_refs (cmd # commands) repo =
     (case updateRef repo cmd of
        (Some err, repo') \<Rightarrow> (Some err, repo')
      | (None, repo') \<Rightarrow> update_refs commands repo')"

text \<open>
  A push request after the HTTP layer: the app id and whether it parses as a UUID, the
  outcome of basic authentication and token validation, and the body (\<open>None\<close> when it
  cannot be read) split by \<open>parseReceivePackCommands\<close> into the command lines and the
  pack behind the flush packet (\<open>None\<close> when nothing follows).
\<close>

datatype credentials = NoCredentials | InvalidToken | Claims string

record push_request =
  pr_appID :: string
  pr_uuid :: bool
  pr_auth :: credentials
  pr_body :: "(receivePackCommand list \<times> packfile option) option"

text \<open>
  \<open>GitHandler.ReceivePack\<close>. \<open>opened\<close> is the repository \<open>git.PlainOpen\<close> finds
  (\<open>None\<close> when there is none). The result is the store and the repository afterwards
  and the outputs in the order they are produced.
\<close>

definition ReceivePack ::
  "bool \<Rightarrow> store \<Rightarrow> push_request \<Rightarrow> repository option \<Rightarrow> nat
     \<Rightarrow> store \<times> repository option \<times> emission list" where
  "ReceivePack hub s req opened now =
     (if \<not> pr_uuid req then (s, opened, [HttpFail 400 ''Invalid app ID''])
      else case pr_auth req of
        NoCredentials \<Rightarrow> (s, opened, [HttpFail 401 ''Authentication required''])
      | InvalidToken \<Rightarrow> (s, opened, [HttpFail 401 ''Invalid token''])
      | Claims userID \<Rightarrow>
     (case authorizeWrite s (pr_appID req) userID of
        Some err \<Rightarrow> (s, opened, [HttpFail 403 err])
      | None \<Rightarrow>
     (case opened of
        None \<Rightarrow> (s, opened, [HttpFail 404 ''Repository not found''])
      | Some repo \<Rightarrow>
     (case pr_body req of
        None \<Rightarrow> (s, opened, sendReceivePackError ''Failed to read request'')
      | Some (commands, pack) \<Rightarrow>
          if length commands = 0 then (s, opened, sendReceivePackError ''No commands in request'')
          else
            (case (case pack of None \<Rightarrow> (None, repo) | Some packData \<Rightarrow> applyPackfile repo packData) of
               (Some err, repo1) \<Rightarrow>
                 (s, Some repo1, sendReceivePackError (''Failed to apply packfile: '' @ err))
             | (None, repo1) \<Rightarrow>
                 (case update_refs commands repo1 of
                    (Some err, repo2) \<Rightarrow>
                      (s, Some repo2, sendReceivePackError (''Failed to update ref: '' @ err))
                  | (None, repo2) \<Rightarrow>
                      (case syncGitToDatabase s (pr_appID req) repo2 now of
                         Inl err \<Rightarrow>
                           (s, Some repo2, sendReceivePackError (''Failed to sync files: '' @ err))
                       | Inr s' \<Rightarrow>
                           (s', Some repo2,
                            broadcastCodeUpdate hub s' (pr_appID req)
                              @ sendReceivePackSuccess commands))))))))"

subsection \<open>The files of the tree at HEAD\<close>

text \<open>
  The contents of the blobs that a tree lists under \<open>name\<close>, in the order of the
  entries, and the content of the blob named \<open>name\<close>: that of the last such entry,
  or empty when there is none.
\<close>

definition found_blobs :: "repository \<Rightarrow> (string \<times> string) list \<Rightarrow> string \<Rightarrow> string list" where
  "found_blobs repo entries name =
     concat (map (\<lambda>(n, hash). if n = name
                    then (case objects repo hash of Some (Blob content) \<Rightarrow> [content] | _ \<Rightarrow> [])
                    else []) entries)"

definition blob_named :: "repository \<Rightarrow> (string \<times> string) list \<Rightarrow> string \<Rightarrow> string" where
  "blob_named repo entries name = last ([] # found_blobs repo entries name)"

text \<open>The entries of the tree of the commit that \<open>HEAD\<close> resolves to.\<close>

definition head_tree :: "repository \<Rightarrow> (string \<times> string) list option" where
  "head_tree repo =
     (case Head repo of
        None \<Rightarrow> None
      | Some hash \<Rightarrow>
          (case objects repo hash of
             Some (Commit treeHash) \<Rightarrow>
               (case objects repo treeHash of Some (Tree entries) \<Rightarrow> Some entries | _ \<Rightarrow> None)
           | _ \<Rightarrow> None))"

section \<open>Example data\<close>

text \<open>Concrete inputs on which the properties below are evaluated.\<close>

text \<open>
  A case table for the examples. It holds these entries of Go's table: \<open>U+00E0\<close> to
  \<open>U+00FE\<close> (without \<open>U+00F7\<close>) against \<open>U+00C0\<close> to \<open>U+00DE\<close>, \<open>U+00FF\<close>
  against \<open>U+0178\<close>, \<open>U+00B5\<close> upwards to \<open>U+039C\<close>, and the code points outside
  ASCII whose upper or lower case is an ASCII letter: \<open>U+017F\<close> (long s) and \<open>U+0131\<close>
  (dotless i) upwards, \<open>U+0130\<close> and \<open>U+212A\<close> (Kelvin sign) downwards. Every other
  code point is left as it is here.
\<close>

definition latin_case :: case_tables where
  "latin_case =
     \<lparr>upper_case = (\<lambda>r. if r = 0x17F then 0x53 else if r = 0x131 then 0x49
                        else if r = 0xB5 then 0x39C else if r = 0xFF then 0x178
                        else if 0xE0 \<le> r \<and> r \<le> 0xFE \<and> r \<noteq> 0xF7 then r - 0x20 else r),
      lower_case = (\<lambda>r. if r = 0x130 then 0x69 else if r = 0x212A then 0x6B
                        else if r = 0x178 then 0xFF
                        else if 0xC0 \<le> r \<and> r \<le> 0xDE \<and> r \<noteq> 0xD7 then r + 0x20 else r)\<rparr>"

text \<open>The two bytes of \<open>U+00A0\<close> (no-break space) and of \<open>U+017F\<close> (long s).\<close>

definition nbsp :: string where
  "nbsp = [CHR 0xC2, CHR 0xA0]"

definition long_s :: string where
  "long_s = [CHR 0xC5, CHR 0xBF]"

definition two_digits :: "nat \<Rightarrow> string" where
  "two_digits n = [''0123456789'' ! (n div 10), ''0123456789'' ! (n mod 10)]"

definition ann :: user_row where
  "ann = \<lparr>u_id = ''u1'', u_username = ''ann'', u_status = ''offline''\<rparr>"

definition busy_channel_store :: store where
  "busy_channel_store =
     \<lparr>users = [ann], channels = [''c1''],
      messages = map (\<lambda>i. \<lparr>m_id = replicate (Suc i) CHR ''m'', m_channel_id = ''c1'',
                   m_user_id = ''u1'', m_content = ''hi'', m_thread_id = None,
                   m_created_at = ''2024-05-01 10:'' @ two_digits (i div 60) @ '':''
                     @ two_digits (i mod 60) @ ''+00:00''\<rparr>) [0..<101],
      reactions = [], apps = [], app_members = [], custom_commands = [], foreign_keys = False\<rparr>"

definition one_word_ctx :: InterpolationContext where
  "one_word_ctx = \<lparr>Input = '' hello '', UserID = ''u1'', Username = ''ann'',
     DisplayName = ''Ann B'', ChannelID = ''c1'', ChannelName = ''general''\<rparr>"

text \<open>An input of two words separated by a no-break space.\<close>

definition two_word_ctx :: InterpolationContext where
  "two_word_ctx = \<lparr>Input = ''a'' @ nbsp @ ''b'', UserID = ''u1'', Username = ''ann'',
     DisplayName = ''Ann B'', ChannelID = ''c1'', ChannelName = ''general''\<rparr>"

definition some_clock :: clock_text where
  "some_clock = \<lparr>unix_text = ''1700000000'', date_text = ''2023-11-14'',
     datetime_text = ''2023-11-14T22:13:20Z''\<rparr>"

text \<open>An engine whose every call succeeds with an empty result.\<close>

definition quiet_engine :: "(unit, unit, int) sql_engine" where
  "quiet_engine = \<lparr>open_db = (\<lambda>appID. Inr ()), db_query = (\<lambda>db q ps. Inr ([], [])),
     db_exec = (\<lambda>db q ps. Inr (0, 0))\<rparr>"

text \<open>
  A store as \<open>store.New\<close> opens it (a plain file path, no \<open>PRAGMA\<close>, hence
  \<open>foreign_keys\<close> off) holding a message, one reply to it and one reaction on it.
\<close>

definition reacted_store :: store where
  "reacted_store =
     \<lparr>users = [ann], channels = [''c1''],
      messages = [\<lparr>m_id = ''m1'', m_channel_id = ''c1'', m_user_id = ''u1'', m_content = ''hi'',
                    m_thread_id = None, m_created_at = ''2024-05-01 10:00:01+00:00''\<rparr>,
                  \<lparr>m_id = ''m2'', m_channel_id = ''c1'', m_user_id = ''u1'', m_content = ''re'',
                    m_thread_id = Some ''m1'', m_created_at = ''2024-05-01 10:00:02+00:00''\<rparr>],
      reactions = [\<lparr>r_id = ''r1'', r_message_id = ''m1'', r_user_id = ''u1'', r_emoji = ''+1''\<rparr>],
      apps = [], app_members = [], custom_commands = [], foreign_keys = False\<rparr>"

text \<open>Two commands named \<open>deploy\<close>: a global one inserted first, then ann's private one.\<close>

definition deploy_commands :: store where
  "deploy_commands =
     \<lparr>users = [ann], channels = [], messages = [], reactions = [], apps = [], app_members = [],
      custom_commands =
        [\<lparr>c_id = ''g'', c_name = ''deploy'', c_is_global = True, c_created_by = ''u2'',
           c_enabled = True\<rparr>,
         \<lparr>c_id = ''p'', c_name = ''deploy'', c_is_global = False, c_created_by = ''u1'',
           c_enabled = True\<rparr>],
      foreign_keys = False\<rparr>"

text \<open>
  A hub with nobody connected, two connections of ann (at addresses 1 and 2), and a hub
  where the connection at address 1 has a full queue and is subscribed to \<open>app1\<close>.
\<close>

definition idle_hub :: hub where
  "idle_hub = \<lparr>clients = [], broadcast = [], closed = [],
     hstore = \<lparr>users = [ann], channels = [], messages = [], reactions = [], apps = [],
                app_members = [], custom_commands = [], foreign_keys = False\<rparr>\<rparr>"

definition ann_client :: client where
  "ann_client = \<lparr>cl_userID = ''u1'', cl_send = [], cl_apps = []\<rparr>"

definition slow_client :: client where
  "slow_client = \<lparr>cl_userID = ''u1'', cl_send = replicate 256 (Typing ''u2'' ''c1''),
     cl_apps = [''app1'']\<rparr>"

definition congested_hub :: hub where
  "congested_hub = idle_hub\<lparr>clients := [(1, slow_client),
     (2, \<lparr>cl_userID = ''u2'', cl_send = [], cl_apps = []\<rparr>)],
     broadcast := [UserOnline ''u2'']\<rparr>"

text \<open>
  A bot with its user row and a registered client, a handler with an attached hub that
  has seen no broadcast yet, and four upstream behaviours: two deltas and \<open>[DONE]\<close>;
  a delta followed by a \<open>done\<close> event with another text; a stream whose text is
  \<open>Pass\<close> followed by a no-break space; and that same stream with a read error held
  by the scanner when \<open>[DONE]\<close> is reached.
\<close>

definition helper_bot :: Bot where
  "helper_bot = \<lparr>bot_ID = ''bot1'', bot_Name = ''openai'', bot_DisplayName = ''Helper'',
     bot_Provider = ''openai''\<rparr>"

definition helper_user :: user_row where
  "helper_user = \<lparr>u_id = ''bot1'', u_username = ''bot-openai'', u_status = ''online''\<rparr>"

definition quiet_handler :: MessageHandler where
  "quiet_handler =
     \<lparr>mh_store = \<lparr>users = [helper_user], channels = [''c1''], messages = [], reactions = [],
                   apps = [], app_members = [], custom_commands = [], foreign_keys = False\<rparr>,
      mh_hub = Some [],
      mh_aiClients = (\<lambda>p. if p = ''openai'' then Some \<lparr>apiKey = ''key'', model = ''gpt''\<rparr> else None),
      mh_lastBotResponse = (\<lambda>channel. None)\<rparr>"

definition first_run :: run_clock where
  "first_run = \<lparr>new_uuid = ''p1'', created = ''2024-05-01 10:00:05+00:00'', responded = 6\<rparr>"

definition delta_event :: "string \<Rightarrow> json_event" where
  "delta_event d = \<lparr>ev_type = ''response.output_text.delta'', ev_delta = Some d, ev_text = None,
     ev_error = None\<rparr>"

definition done_event :: "string \<Rightarrow> json_event" where
  "done_event t = \<lparr>ev_type = ''response.output_text.done'', ev_delta = None, ev_text = Some t,
     ev_error = None\<rparr>"

definition sample_unmarshal :: "string \<Rightarrow> json_event option" where
  "sample_unmarshal data =
     (if data = ''A'' then Some (delta_event ''Hel'')
      else if data = ''B'' then Some (delta_event ''lo'')
      else if data = ''P'' then Some (delta_event (''Pass'' @ nbsp))
      else if data = ''X'' then Some (done_event ''Bye'')
      else None)"



definition passing_provider :: provider where
  "passing_provider = \<lparr>respond = (\<lambda>m msgs p. EventStream [''data: P'', ''data: [DONE]''] False),
     unmarshal = sample_unmarshal\<rparr>"


definition placeholder_row :: message_row where
  "placeholder_row = \<lparr>m_id = ''p1'', m_channel_id = ''c1'', m_user_id = ''bot1'', m_content = [],
     m_thread_id = None, m_created_at = ''2024-05-01 10:00:05+00:00''\<rparr>"

text \<open>
  An app with its owner and its repository (\<open>HEAD\<close> pointing to \<open>refs/heads/main\<close>,
  one commit of the three seeded files), and a push of a new commit that replaces
  \<open>index.html\<close>.
\<close>

definition notes_id :: string where
  "notes_id = ''0b8f7c1e-5a3d-4e2b-9c6f-1d2e3f4a5b6c''"

definition notes_app :: app_row where
  "notes_app = \<lparr>a_id = notes_id, a_html_content = ''<p>old</p>'', a_css_content = ''p {}'',
     a_js_content = ''let x'', a_updated_at = 1\<rparr>"

definition notes_store :: store where
  "notes_store = \<lparr>users = [ann], channels = [], messages = [], reactions = [], apps = [notes_app],
     app_members = [\<lparr>am_app_id = notes_id, am_user_id = ''u1'', am_role = ''owner''\<rparr>],
     custom_commands = [], foreign_keys = False\<rparr>"

definition seeded_repo :: repository where
  "seeded_repo =
     \<lparr>refs = [''HEAD'' \<mapsto> SymbolicReference ''refs/heads/main'',
              ''refs/heads/main'' \<mapsto> HashReference ''c0''],
      objects = [''c0'' \<mapsto> Commit ''t0'',
                 ''t0'' \<mapsto> Tree [(''index.html'', ''b1''), (''script.js'', ''b3''), (''styles.css'', ''b2'')],
                 ''b1'' \<mapsto> Blob ''<p>old</p>'', ''b2'' \<mapsto> Blob ''p {}'', ''b3'' \<mapsto> Blob ''let x''],
      reference_error = (\<lambda>name. None)\<rparr>"

definition push_main :: receivePackCommand where
  "push_main = \<lparr>OldHash = ''c0'', NewHash = ''c1'', RefName = ''refs/heads/main''\<rparr>"

definition notes_push :: push_request where
  "notes_push =
     \<lparr>pr_appID = notes_id, pr_uuid = True, pr_auth = Claims ''u1'',
      pr_body = Some ([push_main],
        Some (PackObjects [Inr (''b4'', Blob ''<h1>hi</h1>''),
           Inr (''t1'', Tree [(''index.html'', ''b4''), (''script.js'', ''b3''), (''styles.css'', ''b2'')]),
           Inr (''c1'', Commit ''t1'')]))\<rparr>"

text \<open>
  The same app after its owner has deleted it: the repository directory is gone with the
  app, and the next request to the git endpoint has initialised a new, empty one
  (\<open>HEAD\<close> pointing to the unborn \<open>refs/heads/master\<close>). The push sends one commit with
  an \<open>index.html\<close> to that branch.
\<close>

definition fresh_repo :: repository where
  "fresh_repo = \<lparr>refs = [''HEAD'' \<mapsto> SymbolicReference ''refs/heads/master''],
     objects = (\<lambda>hash. None), reference_error = (\<lambda>name. None)\<rparr>"

definition master_push :: push_request where
  "master_push =
     \<lparr>pr_appID = notes_id, pr_uuid = True, pr_auth = Claims ''u1'',
      pr_body = Some ([\<lparr>OldHash = replicate 40 CHR ''0'', NewHash = ''c1'', RefName = ''refs/heads/master''\<rparr>],
        Some (PackObjects [Inr (''b4'', Blob ''<h1>hi</h1>''),
           Inr (''t1'', Tree [(''index.html'', ''b4'')]),
           Inr (''c1'', Commit ''t1'')]))\<rparr>"

text \<open>
  The hub after ann has connected once (at address 1) and received her own
  \<open>user_online\<close> frame, and 255 typing frames have then been sent to the channel
  while her client read none: her queue is full.
\<close>

definition stalled_hub :: hub where
  "stalled_hub =
     \<lparr>clients = [(1, ann_client\<lparr>cl_send := UserOnline ''u1'' # replicate 255 (Typing ''u2'' ''c1'')\<rparr>)],
      broadcast = [], closed = [],
      hstore = \<lparr>users = [ann\<lparr>u_status := ''online''\<rparr>], channels = [], messages = [], reactions = [],
                apps = [], app_members = [], custom_commands = [], foreign_keys = False\<rparr>\<rparr>"

section \<open>Evaluation rules\<close>

lemmas Atoi_eval = Atoi_def is_digit_def digits_value_def digit_val_def

lemmas utf8_eval = DecodeRuneInString_def DecodeLastRuneInString_def EncodeRune_def RuneError_def
  RuneSelf_def first_byte_def byte_at_def RuneStart_def start_before.simps Let_def char_of_eq_iff

lemmas string_eval = utf8_eval IsSpace_def unicode_ToUpper_def unicode_ToLower_def Map_def
  ToUpper_def ToLower_def TrimLeftFunc_def TrimSpace_def Fields_def HasPrefix_def

section \<open>Presence transitions\<close>

lemma has_user_connections: "has_user u (clients h) \<longleftrightarrow> 0 < connections h u"
  by (auto simp: has_user_def connections_def list_ex_iff filter_empty_conv)

lemma status_after_update:
  "\<forall>u \<in> set (users (UpdateUserStatus s uid st)). u_id u = uid \<longrightarrow> u_status u = st"
proof
  fix u assume "u \<in> set (users (UpdateUserStatus s uid st))"
  then obtain v where v: "u = (if u_id v = uid then v\<lparr>u_status := st\<rparr> else v)"
    unfolding UpdateUserStatus_def by fastforce
  show "u_id u = uid \<longrightarrow> u_status u = st"
    by (cases "u_id v = uid") (simp_all add: v)
qed

lemma delete_client_absent: "p \<notin> fst ` set cs \<Longrightarrow> delete_client p cs = cs"
  unfolding delete_client_def by (induction cs) auto

lemma count_delete_client:
  "distinct (map fst cs) \<Longrightarrow> (p, c) \<in> set cs \<Longrightarrow> cl_userID c = u \<Longrightarrow>
   Suc (length (filter (\<lambda>(q, d). cl_userID d = u) (delete_client p cs)))
     = length (filter (\<lambda>(q, d). cl_userID d = u) cs)"
proof (induction cs)
  case Nil then show ?case by simp
next
  case (Cons x cs)
  obtain q d where x: "x = (q, d)" by (cases x)
  show ?case
  proof (cases "q = p")
    case True
    from Cons.prems(1) x True have ni: "p \<notin> fst ` set cs" by simp
    with Cons.prems(2) x True have "d = c" by (auto simp: rev_image_eqI)
    moreover have "delete_client p (x # cs) = cs"
      using ni x True by (simp add: delete_client_def delete_client_absent [unfolded delete_client_def])
    ultimately show ?thesis using x Cons.prems(3) by simp
  next
    case False
    from False x have dc: "delete_client p (x # cs) = x # delete_client p cs"
      by (simp add: delete_client_def)
    from False x Cons.prems(2) have "(p, c) \<in> set cs" by auto
    moreover from Cons.prems(1) have "distinct (map fst cs)" by simp
    ultimately have "Suc (length (filter (\<lambda>(q, d). cl_userID d = u) (delete_client p cs)))
        = length (filter (\<lambda>(q, d). cl_userID d = u) cs)"
      using Cons.IH Cons.prems(3) by blast
    then show ?thesis unfolding dc by simp
  qed
qed

text \<open>
  Presence while connections come and go through the coordinator alone: registering a
  new connection raises the user's connection count by one, sets the stored status to
  online, and queues exactly one \<open>user_online\<close> broadcast when the count was zero and
  none otherwise. Unregistering a connection that is still registered lowers the count
  by one; when it was the user's only connection the stored status becomes offline and
  exactly one \<open>user_offline\<close> broadcast is queued, otherwise nothing is queued and the
  store is untouched.
\<close>

lemma presence_of_registered_connections:
  "(p \<notin> set (map fst (clients h)) \<longrightarrow>
      connections (run_register p c h) (cl_userID c) = Suc (connections h (cl_userID c))
    \<and> broadcast (run_register p c h)
        = broadcast h @ (if connections h (cl_userID c) = 0 then [UserOnline (cl_userID c)] else [])
    \<and> (\<forall>u \<in> set (users (hstore (run_register p c h))).
          u_id u = cl_userID c \<longrightarrow> u_status u = ''online''))
   \<and> (distinct (map fst (clients h)) \<and> (p, c) \<in> set (clients h) \<longrightarrow>
      Suc (connections (run_unregister p h) (cl_userID c)) = connections h (cl_userID c)
    \<and> broadcast (run_unregister p h)
        = broadcast h @ (if connections h (cl_userID c) = 1 then [UserOffline (cl_userID c)] else [])
    \<and> (connections h (cl_userID c) = 1 \<longrightarrow>
         (\<forall>u \<in> set (users (hstore (run_unregister p h))).
            u_id u = cl_userID c \<longrightarrow> u_status u = ''offline''))
    \<and> (connections h (cl_userID c) \<noteq> 1 \<longrightarrow> hstore (run_unregister p h) = hstore h))"
proof (rule conjI; rule impI)
  assume fresh: "p \<notin> set (map fst (clients h))"
  show "connections (run_register p c h) (cl_userID c) = Suc (connections h (cl_userID c))
    \<and> broadcast (run_register p c h)
        = broadcast h @ (if connections h (cl_userID c) = 0 then [UserOnline (cl_userID c)] else [])
    \<and> (\<forall>u \<in> set (users (hstore (run_register p c h))).
          u_id u = cl_userID c \<longrightarrow> u_status u = ''online'')"
    using fresh status_after_update [of "hstore h" "cl_userID c" "''online''"]
    by (simp add: run_register_def Let_def BroadcastAll_def has_user_connections connections_def)
next
  assume a: "distinct (map fst (clients h)) \<and> (p, c) \<in> set (clients h)"
  then have m: "map_of (clients h) p = Some c" by simp
  let ?h1 = "h\<lparr>clients := delete_client p (clients h), closed := closed h @ [p]\<rparr>"
  have cnt: "Suc (connections ?h1 (cl_userID c)) = connections h (cl_userID c)"
    using a count_delete_client [of "clients h" p c "cl_userID c"] by (simp add: connections_def)
  have hu: "has_user (cl_userID c) (delete_client p (clients h)) \<longleftrightarrow> connections h (cl_userID c) \<noteq> 1"
    using cnt has_user_connections [of "cl_userID c" ?h1] by auto
  show "Suc (connections (run_unregister p h) (cl_userID c)) = connections h (cl_userID c)
    \<and> broadcast (run_unregister p h)
        = broadcast h @ (if connections h (cl_userID c) = 1 then [UserOffline (cl_userID c)] else [])
    \<and> (connections h (cl_userID c) = 1 \<longrightarrow>
         (\<forall>u \<in> set (users (hstore (run_unregister p h))).
            u_id u = cl_userID c \<longrightarrow> u_status u = ''offline''))
    \<and> (connections h (cl_userID c) \<noteq> 1 \<longrightarrow> hstore (run_unregister p h) = hstore h)"
    using m hu cnt status_after_update [of "hstore h" "cl_userID c" "''offline''"]
    by (simp add: run_unregister_def Let_def BroadcastAll_def connections_def)
qed

lemma presence_of_two_connections:
  "broadcast (run_register 1 ann_client idle_hub) = [UserOnline ''u1'']
   \<and> users (hstore (run_register 1 ann_client idle_hub))
       = [\<lparr>u_id = ''u1'', u_username = ''ann'', u_status = ''online''\<rparr>]
   \<and> 2 \<notin> set (map fst (clients (run_register 1 ann_client idle_hub)))
   \<and> broadcast (run_register 2 ann_client (run_register 1 ann_client idle_hub)) = [UserOnline ''u1'']
   \<and> distinct (map fst (clients (run_register 2 ann_client (run_register 1 ann_client idle_hub))))
   \<and> (1, ann_client) \<in> set (clients (run_register 2 ann_client (run_register 1 ann_client idle_hub)))
   \<and> broadcast (run_unregister 1 (run_register 2 ann_client (run_register 1 ann_client idle_hub)))
       = [UserOnline ''u1'']
   \<and> broadcast (run_unregister 2 (run_unregister 1
         (run_register 2 ann_client (run_register 1 ann_client idle_hub))))
       = [UserOnline ''u1'', UserOffline ''u1'']
   \<and> users (hstore (run_unregister 2 (run_unregister 1
         (run_register 2 ann_client (run_register 1 ann_client idle_hub)))))
       = [\<lparr>u_id = ''u1'', u_username = ''ann'', u_status = ''offline''\<rparr>]"
proof -
  define h1 where "h1 = run_register 1 ann_client idle_hub"
  define h2 where "h2 = run_register 2 ann_client h1"
  define h3 where "h3 = run_unregister 1 h2"
  have e1: "h1 = idle_hub\<lparr>clients := [(1, ann_client)], broadcast := [UserOnline ''u1''],
      hstore := (hstore idle_hub)\<lparr>users := [ann\<lparr>u_status := ''online''\<rparr>]\<rparr>\<rparr>"
    by (simp add: h1_def run_register_def idle_hub_def ann_client_def ann_def has_user_def
        UpdateUserStatus_def BroadcastAll_def)
  have c1: "connections h1 ''u1'' = 1"
    by (simp add: e1 connections_def ann_client_def idle_hub_def)
  have u: "cl_userID ann_client = ''u1''" by (simp add: ann_client_def)
  note r2 = presence_of_registered_connections [of 2 h1 ann_client, unfolded u]
  have k1: "2 \<notin> set (map fst (clients h1))" by (simp add: e1)
  have b2: "broadcast h2 = [UserOnline ''u1'']" "connections h2 ''u1'' = 2"
    using r2 k1 c1 by (simp_all add: h2_def e1)
  have cl2: "clients h2 = [(1, ann_client), (2, ann_client)]"
    by (simp add: h2_def run_register_def e1 Let_def BroadcastAll_def)
  note r3 = presence_of_registered_connections [of 1 h2 ann_client, unfolded u]
  have b3: "broadcast h3 = [UserOnline ''u1'']"
    using r3 b2 by (simp add: h3_def cl2)
  have e3: "clients h3 = [(2, ann_client)]" "hstore h3 = hstore h1"
    by (simp_all add: h3_def h2_def run_unregister_def run_register_def e1 Let_def BroadcastAll_def
        delete_client_def has_user_def UpdateUserStatus_def ann_client_def idle_hub_def)
  have b4: "broadcast (run_unregister 2 h3) = [UserOnline ''u1'', UserOffline ''u1'']"
    by (simp add: run_unregister_def e3 b3 Let_def delete_client_def has_user_def BroadcastAll_def u)
  have s4: "users (hstore (run_unregister 2 h3))
      = [\<lparr>u_id = ''u1'', u_username = ''ann'', u_status = ''offline''\<rparr>]"
    by (simp add: run_unregister_def e3 e1 Let_def delete_client_def has_user_def BroadcastAll_def
        UpdateUserStatus_def ann_client_def ann_def idle_hub_def)
  show ?thesis
    unfolding h1_def [symmetric] h2_def [symmetric] h3_def [symmetric]
    using k1 b2 b3 b4 s4 by (simp add: e1 cl2 ann_def u)
qed

lemma run_unregister_absent:
  "p \<notin> set (map fst (clients h)) \<Longrightarrow> run_unregister p h = h"
  by (simp add: run_unregister_def map_of_eq_None_iff [THEN iffD2])

lemma queue_fills:
  "length q + n \<le> 256 \<Longrightarrow>
   ((\<lambda>h. BroadcastToChannel h ch m) ^^ n) (h\<lparr>clients := [(p, c\<lparr>cl_send := q\<rparr>)]\<rparr>)
     = h\<lparr>clients := [(p, c\<lparr>cl_send := q @ replicate n m\<rparr>)]\<rparr>"
proof (induction n)
  case 0
  then show ?case by simp
next
  case (Suc n)
  then have ih: "((\<lambda>h. BroadcastToChannel h ch m) ^^ n) (h\<lparr>clients := [(p, c\<lparr>cl_send := q\<rparr>)]\<rparr>)
     = h\<lparr>clients := [(p, c\<lparr>cl_send := q @ replicate n m\<rparr>)]\<rparr>" by simp
  from Suc.prems have room: "length q + n < 256" by simp
  let ?X = "h\<lparr>clients := [(p, c\<lparr>cl_send := q\<rparr>)]\<rparr>"
  have "((\<lambda>h. BroadcastToChannel h ch m) ^^ Suc n) ?X
      = BroadcastToChannel (((\<lambda>h. BroadcastToChannel h ch m) ^^ n) ?X) ch m" by simp
  also have "\<dots> = BroadcastToChannel (h\<lparr>clients := [(p, c\<lparr>cl_send := q @ replicate n m\<rparr>)]\<rparr>) ch m"
    by (simp only: ih)
  also have "\<dots> = h\<lparr>clients := [(p, c\<lparr>cl_send := q @ replicate (Suc n) m\<rparr>)]\<rparr>"
    using room
    by (simp add: BroadcastToChannel_def fan_out_evict_def try_send_def replicate_append_same)
  finally show ?case .
qed

text \<open>
  C1 on the code: ann connects once and her client stops reading; 255 typing frames
  later her queue is full. The next fan-out (here \<open>BroadcastToChannel\<close>; the
  coordinator's broadcast case, \<open>BroadcastToApp\<close> and \<open>SendToUser\<close> do the same)
  closes and deletes the connection without any presence update. It was ann's only
  connection. When its reader then unregisters it, the coordinator finds it absent and
  does nothing: ann has no connection left, her stored status is still \<open>online\<close>, and
  no \<open>user_offline\<close> broadcast is queued.
\<close>

theorem evicted_last_connection_stays_online:
  "((\<lambda>h. BroadcastToChannel h ''c1'' (Typing ''u2'' ''c1'')) ^^ 255)
      (run_broadcast (run_register 1 ann_client idle_hub)) = stalled_hub
   \<and> connections stalled_hub ''u1'' = 1
   \<and> clients (BroadcastToChannel stalled_hub ''c1'' (Typing ''u2'' ''c1'')) = []
   \<and> closed (BroadcastToChannel stalled_hub ''c1'' (Typing ''u2'' ''c1'')) = [1]
   \<and> connections (run_unregister 1 (BroadcastToChannel stalled_hub ''c1'' (Typing ''u2'' ''c1''))) ''u1'' = 0
   \<and> users (hstore (run_unregister 1 (BroadcastToChannel stalled_hub ''c1'' (Typing ''u2'' ''c1''))))
       = [\<lparr>u_id = ''u1'', u_username = ''ann'', u_status = ''online''\<rparr>]
   \<and> broadcast (run_unregister 1 (BroadcastToChannel stalled_hub ''c1'' (Typing ''u2'' ''c1''))) = []"
proof -
  let ?h0 = "\<lparr>clients = [], broadcast = [], closed = [],
      hstore = \<lparr>users = [ann\<lparr>u_status := ''online''\<rparr>], channels = [], messages = [], reactions = [],
                 apps = [], app_members = [], custom_commands = [], foreign_keys = False\<rparr>\<rparr>"
  have r: "run_broadcast (run_register 1 ann_client idle_hub)
      = ?h0\<lparr>clients := [(1, ann_client\<lparr>cl_send := [UserOnline ''u1'']\<rparr>)]\<rparr>"
    by (simp add: run_broadcast_def run_register_def idle_hub_def ann_client_def ann_def has_user_def
        UpdateUserStatus_def BroadcastAll_def fan_out_evict_def try_send_def)
  have f: "((\<lambda>h. BroadcastToChannel h ''c1'' (Typing ''u2'' ''c1'')) ^^ 255)
      (run_broadcast (run_register 1 ann_client idle_hub)) = stalled_hub"
    unfolding r
    by (subst queue_fills) (simp_all add: stalled_hub_def)
  have e: "BroadcastToChannel stalled_hub ''c1'' (Typing ''u2'' ''c1'')
      = stalled_hub\<lparr>clients := [], closed := [1]\<rparr>"
    by (simp add: BroadcastToChannel_def fan_out_evict_def stalled_hub_def ann_client_def
        try_send_def delete_client_def)
  have u: "run_unregister 1 (stalled_hub\<lparr>clients := [], closed := [1]\<rparr>)
      = stalled_hub\<lparr>clients := [], closed := [1]\<rparr>"
    by (rule run_unregister_absent) simp
  show ?thesis
    unfolding e u
    using f by (simp add: stalled_hub_def ann_client_def connections_def ann_def)
qed

section \<open>Slow-consumer eviction\<close>

lemma fan_out_keys: "map fst (fst (fan_out sel d cs)) = map fst cs"
  by (induction cs) (auto split: prod.splits option.splits)

lemma fan_out_stale:
  "(p, c) \<in> set cs \<Longrightarrow> sel c \<Longrightarrow> 256 \<le> length (cl_send c) \<Longrightarrow> p \<in> set (snd (fan_out sel d cs))"
  by (induction cs) (auto simp: try_send_def split: prod.splits option.splits)

lemma remove_stale_keys:
  "set (map fst (clients (remove_stale ps h))) = set (map fst (clients h)) - set ps"
proof (induction ps arbitrary: h)
  case Nil then show ?case by simp
next
  case (Cons p ps)
  have "fst ` set (delete_client p (clients h)) = fst ` set (clients h) - {p}"
    by (auto simp: delete_client_def rev_image_eqI)
  with Cons [of "h\<lparr>closed := closed h @ [p], clients := delete_client p (clients h)\<rparr>"] Cons [of h]
  show ?case by auto
qed

lemma remove_stale_closed:
  "set (closed (remove_stale ps h)) = set (closed h) \<union> (set ps \<inter> set (map fst (clients h)))"
proof (induction ps arbitrary: h)
  case Nil then show ?case by simp
next
  case (Cons p ps)
  have "fst ` set (delete_client p (clients h)) = fst ` set (clients h) - {p}"
    by (auto simp: delete_client_def rev_image_eqI)
  with Cons [of "h\<lparr>closed := closed h @ [p], clients := delete_client p (clients h)\<rparr>"] Cons [of h]
  show ?case by auto
qed

lemma fan_out_evict_full:
  assumes "(p, c) \<in> set (clients h)" "sel c" "256 \<le> length (cl_send c)"
  shows "p \<notin> set (map fst (clients (fan_out_evict sel d h)))
       \<and> p \<in> set (closed (fan_out_evict sel d h))"
proof -
  obtain cs stale where f: "fan_out sel d (clients h) = (cs, stale)" by (cases "fan_out sel d (clients h)")
  have st: "p \<in> set stale"
    using fan_out_stale [of p c "clients h" sel d] assms f by simp
  have keys: "map fst cs = map fst (clients h)" using fan_out_keys [of sel d "clients h"] f by simp
  have "p \<in> set (map fst (clients h))" using assms(1) by (auto simp: rev_image_eqI)
  then have pk: "p \<in> set (map fst cs)" unfolding keys .
  have ev: "fan_out_evict sel d h = remove_stale stale (h\<lparr>clients := cs\<rparr>)"
    using st f by (cases stale) (simp_all add: fan_out_evict_def)
  show ?thesis
    unfolding ev using st pk
    by (simp add: remove_stale_keys remove_stale_closed del: set_map)
qed

lemma send_user_keys_subset: "set (map fst (fst (send_user u d cs))) \<subseteq> set (map fst cs)"
proof (induction cs)
  case Nil then show ?case by simp
next
  case (Cons x cs)
  obtain q e where x: "x = (q, e)" by (cases x)
  obtain rest gone where r: "send_user u d cs = (rest, gone)" by (cases "send_user u d cs")
  with Cons have "set (map fst rest) \<subseteq> set (map fst cs)" by simp
  then show ?case using x r by (cases "try_send d e") auto
qed

lemma send_user_full:
  "distinct (map fst cs) \<Longrightarrow> (p, c) \<in> set cs \<Longrightarrow> cl_userID c = u \<Longrightarrow> 256 \<le> length (cl_send c) \<Longrightarrow>
   p \<notin> set (map fst (fst (send_user u d cs))) \<and> p \<in> set (snd (send_user u d cs))"
proof (induction cs)
  case Nil then show ?case by simp
next
  case (Cons x cs)
  obtain q e where x: "x = (q, e)" by (cases x)
  obtain rest gone where r: "send_user u d cs = (rest, gone)" by (cases "send_user u d cs")
  have sub: "set (map fst rest) \<subseteq> set (map fst cs)"
    using send_user_keys_subset [of u d cs] r by simp
  show ?case
  proof (cases "(p, c) = x")
    case True
    with x have qe: "q = p" "e = c" by simp_all
    from Cons.prems(1) x qe have "p \<notin> set (map fst cs)" by simp
    with sub have "p \<notin> set (map fst rest)" by blast
    moreover have "try_send d c = None" using Cons.prems(4) by (simp add: try_send_def)
    ultimately show ?thesis using x qe r Cons.prems(3) by simp
  next
    case False
    with Cons.prems(2) have "(p, c) \<in> set cs" by simp
    moreover from Cons.prems(1) have "distinct (map fst cs)" by simp
    ultimately have ih: "p \<notin> set (map fst rest) \<and> p \<in> set gone"
      using Cons.IH Cons.prems(3,4) r by simp
    have "q \<noteq> p" using Cons.prems(1) x \<open>(p, c) \<in> set cs\<close> by (auto simp: rev_image_eqI)
    with ih x r show ?thesis by (auto split: option.splits)
  qed
qed

lemma send_except_keys: "map fst (send_except e d cs) = map fst cs"
  by (induction cs) (auto split: option.splits)

lemma send_except_full:
  "(p, c) \<in> set cs \<Longrightarrow> 256 \<le> length (cl_send c) \<Longrightarrow> (p, c) \<in> set (send_except e d cs)"
  by (induction cs) (auto simp: try_send_def split: option.splits)

text \<open>
  C2, amended: a registered connection whose queue is full when one of broadcast-all (in
  the coordinator), broadcast-to-channel, broadcast-to-app (for a subscriber) or
  send-to-user (for a connection of that user) reaches it is, when the operation
  returns, absent from the registry and among the closed connections.
  Broadcast-to-channel-except instead skips such a connection: it stays registered,
  unchanged, and nothing is closed. Every enqueue is the non-blocking \<open>try_send\<close>,
  so each operation returns.
\<close>

theorem full_queue_eviction:
  "(p, c) \<in> set (clients h) \<and> 256 \<le> length (cl_send c) \<longrightarrow>
     (broadcast h \<noteq> [] \<longrightarrow>
        p \<notin> set (map fst (clients (run_broadcast h))) \<and> p \<in> set (closed (run_broadcast h)))
   \<and> (p \<notin> set (map fst (clients (BroadcastToChannel h channelID msg)))
        \<and> p \<in> set (closed (BroadcastToChannel h channelID msg)))
   \<and> (isSubscribedToApp c appID \<longrightarrow>
        p \<notin> set (map fst (clients (BroadcastToApp h appID msg)))
        \<and> p \<in> set (closed (BroadcastToApp h appID msg)))
   \<and> (distinct (map fst (clients h)) \<and> cl_userID c = userID \<longrightarrow>
        p \<notin> set (map fst (clients (SendToUser h userID msg)))
        \<and> p \<in> set (closed (SendToUser h userID msg)))
   \<and> ((p, c) \<in> set (clients (BroadcastToChannelExcept h channelID except msg))
        \<and> map fst (clients (BroadcastToChannelExcept h channelID except msg)) = map fst (clients h)
        \<and> closed (BroadcastToChannelExcept h channelID except msg) = closed h)"
proof (rule impI)
  assume a: "(p, c) \<in> set (clients h) \<and> 256 \<le> length (cl_send c)"
  then have pc: "(p, c) \<in> set (clients h)" and full: "256 \<le> length (cl_send c)" by simp_all
  have 1: "p \<notin> set (map fst (clients (run_broadcast h))) \<and> p \<in> set (closed (run_broadcast h))"
    if "broadcast h \<noteq> []"
  proof -
    from that obtain m ms where b: "broadcast h = m # ms" by (cases "broadcast h") auto
    have "(p, c) \<in> set (clients (h\<lparr>broadcast := ms\<rparr>))" using pc by simp
    from fan_out_evict_full [OF this _ full, of "\<lambda>c. True" m] b
    show ?thesis by (simp add: run_broadcast_def)
  qed
  have 2: "p \<notin> set (map fst (clients (BroadcastToChannel h channelID msg)))
        \<and> p \<in> set (closed (BroadcastToChannel h channelID msg))"
    using fan_out_evict_full [OF pc _ full, of "\<lambda>c. True" msg]
    by (simp add: BroadcastToChannel_def)
  have 3: "p \<notin> set (map fst (clients (BroadcastToApp h appID msg)))
        \<and> p \<in> set (closed (BroadcastToApp h appID msg))" if "isSubscribedToApp c appID"
    using fan_out_evict_full [OF pc _ full, of "\<lambda>c. isSubscribedToApp c appID" msg] that
    by (simp add: BroadcastToApp_def)
  have 4: "p \<notin> set (map fst (clients (SendToUser h userID msg)))
        \<and> p \<in> set (closed (SendToUser h userID msg))"
    if "distinct (map fst (clients h)) \<and> cl_userID c = userID"
  proof -
    obtain cs gone where s: "send_user userID msg (clients h) = (cs, gone)"
      by (cases "send_user userID msg (clients h)")
    from that have "distinct (map fst (clients h))" "cl_userID c = userID" by simp_all
    from send_user_full [OF this(1) pc this(2) full, of msg] s
    show ?thesis by (simp add: SendToUser_def)
  qed
  have 5: "(p, c) \<in> set (clients (BroadcastToChannelExcept h channelID except msg))
        \<and> map fst (clients (BroadcastToChannelExcept h channelID except msg)) = map fst (clients h)
        \<and> closed (BroadcastToChannelExcept h channelID except msg) = closed h"
    using send_except_full [OF pc full, of except msg]
    by (simp add: BroadcastToChannelExcept_def send_except_keys)
  from 1 2 3 4 5 show "(broadcast h \<noteq> [] \<longrightarrow>
        p \<notin> set (map fst (clients (run_broadcast h))) \<and> p \<in> set (closed (run_broadcast h)))
   \<and> (p \<notin> set (map fst (clients (BroadcastToChannel h channelID msg)))
        \<and> p \<in> set (closed (BroadcastToChannel h channelID msg)))
   \<and> (isSubscribedToApp c appID \<longrightarrow>
        p \<notin> set (map fst (clients (BroadcastToApp h appID msg)))
        \<and> p \<in> set (closed (BroadcastToApp h appID msg)))
   \<and> (distinct (map fst (clients h)) \<and> cl_userID c = userID \<longrightarrow>
        p \<notin> set (map fst (clients (SendToUser h userID msg)))
        \<and> p \<in> set (closed (SendToUser h userID msg)))
   \<and> ((p, c) \<in> set (clients (BroadcastToChannelExcept h channelID except msg))
        \<and> map fst (clients (BroadcastToChannelExcept h channelID except msg)) = map fst (clients h)
        \<and> closed (BroadcastToChannelExcept h channelID except msg) = closed h)"
    by blast
qed

theorem full_queue_eviction_witness:
  "(1, slow_client) \<in> set (clients congested_hub) \<and> 256 \<le> length (cl_send slow_client)
   \<and> broadcast congested_hub \<noteq> [] \<and> isSubscribedToApp slow_client ''app1''
   \<and> distinct (map fst (clients congested_hub)) \<and> cl_userID slow_client = ''u1''
   \<and> 1 \<notin> set (map fst (clients (run_broadcast congested_hub)))
   \<and> 1 \<in> set (closed (run_broadcast congested_hub))
   \<and> 1 \<notin> set (map fst (clients (BroadcastToChannel congested_hub ''c1'' (Typing ''u2'' ''c1''))))
   \<and> 1 \<in> set (closed (BroadcastToChannel congested_hub ''c1'' (Typing ''u2'' ''c1'')))
   \<and> 1 \<notin> set (map fst (clients (BroadcastToApp congested_hub ''app1'' (Typing ''u2'' ''c1''))))
   \<and> 1 \<in> set (closed (BroadcastToApp congested_hub ''app1'' (Typing ''u2'' ''c1'')))
   \<and> 1 \<notin> set (map fst (clients (SendToUser congested_hub ''u1'' (Typing ''u2'' ''c1''))))
   \<and> 1 \<in> set (closed (SendToUser congested_hub ''u1'' (Typing ''u2'' ''c1'')))
   \<and> (1, slow_client) \<in> set (clients (BroadcastToChannelExcept congested_hub ''c1'' 2 (Typing ''u2'' ''c1'')))"
proof -
  have hyp: "(1, slow_client) \<in> set (clients congested_hub)" "256 \<le> length (cl_send slow_client)"
    "broadcast congested_hub \<noteq> []" "isSubscribedToApp slow_client ''app1''"
    "distinct (map fst (clients congested_hub))" "cl_userID slow_client = ''u1''"
    by (simp_all add: congested_hub_def idle_hub_def slow_client_def isSubscribedToApp_def)
  note w = full_queue_eviction [of 1 slow_client congested_hub "''c1''" "Typing ''u2'' ''c1''"
      "''app1''" "''u1''" 2]
  from w hyp show ?thesis by blast
qed

text \<open>
  C2, as stated, fails for broadcast-to-channel-except: a connection with 256 queued
  frames that is not the excepted one is neither removed from the registry nor closed.
\<close>

theorem channel_except_keeps_full_connection:
  "length (cl_send slow_client) = 256
   \<and> clients congested_hub = [(1, slow_client), (2, \<lparr>cl_userID = ''u2'', cl_send = [], cl_apps = []\<rparr>)]
   \<and> clients (BroadcastToChannelExcept congested_hub ''c1'' 2 (Typing ''u2'' ''c1''))
       = clients congested_hub
   \<and> closed (BroadcastToChannelExcept congested_hub ''c1'' 2 (Typing ''u2'' ''c1'')) = []"
  by (simp add: BroadcastToChannelExcept_def congested_hub_def idle_hub_def slow_client_def
      try_send_def)

section \<open>Streaming runs\<close>

subsection \<open>The scanning loop and its callback\<close>

lemma scan_log_append:
  "snd (scan dec (\<lambda>d f calls. calls @ [(d, f)]) lines full acc)
     = acc @ snd (scan dec (\<lambda>d f calls. calls @ [(d, f)]) lines full [])"
proof (induction lines arbitrary: full acc)
  case Nil then show ?case by simp
next
  case (Cons line rest)
  show ?case
  proof (cases "loop_body dec line")
    case (Emit d)
    with Cons [of "full @ d" "acc @ [(d, full @ d)]"] Cons [of "full @ d" "[(d, full @ d)]"]
    show ?thesis by simp
  next
    case Continue
    with Cons [of full acc] show ?thesis by simp
  next
    case (Replace t)
    with Cons [of t acc] show ?thesis by simp
  qed simp_all
qed

lemma scan_result_any_callback:
  "fst (scan dec cb lines full st) = fst (scan dec cb' lines full st')"
proof (induction lines arbitrary: full st st')
  case Nil then show ?case by simp
next
  case (Cons line rest)
  then show ?case by (cases "loop_body dec line") simp_all
qed

lemma scan_state_fold:
  "snd (scan dec cb lines full st)
     = foldl (\<lambda>s (d, f). cb d f s) st (snd (scan dec (\<lambda>d f calls. calls @ [(d, f)]) lines full []))"
proof (induction lines arbitrary: full st)
  case Nil then show ?case by simp
next
  case (Cons line rest)
  show ?case
  proof (cases "loop_body dec line")
    case (Emit d)
    have "snd (scan dec (\<lambda>d f calls. calls @ [(d, f)]) rest (full @ d) [(d, full @ d)])
        = [(d, full @ d)] @ snd (scan dec (\<lambda>d f calls. calls @ [(d, f)]) rest (full @ d) [])"
      by (rule scan_log_append)
    with Emit Cons [of "full @ d" "cb d (full @ d) st"] show ?thesis by simp
  qed (use Cons in simp_all)
qed









subsection \<open>The shape of a run\<close>

lemma StreamResponseWithContext_callbacks:
  "StreamResponseWithContext prov c msgs p cb st
     = (stream_result prov c msgs p,
        foldl (\<lambda>s (d, f). cb d f s) st (delta_calls prov c msgs p))"
proof (cases "apiKey c = []")
  case True
  then show ?thesis
    by (simp add: StreamResponseWithContext_def stream_result_def delta_calls_def)
next
  case False
  show ?thesis
  proof (cases "respond prov (model c) msgs p")
    case SendFailed
    with False show ?thesis
      by (simp add: StreamResponseWithContext_def stream_result_def delta_calls_def)
  next
    case (BadStatus code body)
    with False show ?thesis
      by (simp add: StreamResponseWithContext_def stream_result_def delta_calls_def)
  next
    case (EventStream lines rerr)
    let ?log = "\<lambda>d f calls. calls @ [(d, f)]"
    obtain e st' where s1: "scan (unmarshal prov) cb lines [] st = (e, st')"
      by (cases "scan (unmarshal prov) cb lines [] st")
    obtain e2 u where s2: "scan (unmarshal prov) (\<lambda>d f u. u) lines [] () = (e2, u)"
      by (cases "scan (unmarshal prov) (\<lambda>d f u. u) lines [] ()")
    obtain e3 l where s3: "scan (unmarshal prov) ?log lines [] [] = (e3, l)"
      by (cases "scan (unmarshal prov) ?log lines [] []")
    have "e2 = e" "e3 = e"
      using scan_result_any_callback [of "unmarshal prov" "\<lambda>d f u. u" lines "[]" "()" cb st]
        scan_result_any_callback [of "unmarshal prov" ?log lines "[]" "[]" cb st] s1 s2 s3
      by simp_all
    moreover have "st' = foldl (\<lambda>s (d, f). cb d f s) st l"
      using scan_state_fold [of "unmarshal prov" cb lines "[]" st] s1 s3 by simp
    ultimately show ?thesis
      using False EventStream s1 s2 s3
      by (cases e)
         (simp_all add: StreamResponseWithContext_def stream_result_def delta_calls_def)
  qed
qed

lemma hub_broadcast_fold:
  "mh_hub h = Some calls \<Longrightarrow>
   foldl (\<lambda>s (d, f). hub_broadcast ch (mk d f) s) h ds
     = h\<lparr>mh_hub := Some (calls @ map (\<lambda>(d, f). (ch, mk d f)) ds)\<rparr>"
proof (induction ds arbitrary: h calls)
  case Nil
  then show ?case by (cases h) simp
next
  case (Cons x ds)
  obtain d f where x: "x = (d, f)" by (cases x)
  have "mh_hub (hub_broadcast ch (mk d f) h) = Some (calls @ [(ch, mk d f)])"
    using Cons.prems by (simp add: hub_broadcast_def)
  from Cons.IH [OF this] Cons.prems x show ?case
    by (simp add: hub_broadcast_def)
qed

lemma CreateMessage_row:
  "CreateMessage s new_id now ch uid content threadID = Some (msg, s1) \<Longrightarrow>
   msg = \<lparr>m_id = new_id, m_channel_id = ch, m_user_id = uid, m_content = content,
           m_thread_id = threadID, m_created_at = now\<rparr>
   \<and> s1 = s\<lparr>messages := messages s @ [msg]\<rparr> \<and> new_id \<notin> set (map m_id (messages s))"
  by (auto simp: CreateMessage_def Let_def split: if_splits)

lemma run_shape:
  fixes userMessage :: string and isFollowUp :: bool and prov :: provider
  assumes "mh_aiClients h (bot_Provider b) = Some c"
    and "GetUserByID (mh_store h) (bot_ID b) = Some botUser"
    and "CreateMessage (mh_store h) (new_uuid clk) (created clk) ch (bot_ID b) [] threadID = Some (msg, s1)"
    and "mh_hub h = Some calls"
  defines "ctx \<equiv> build_context (GetChannelMessages (mh_store h) ch 4) userMessage b"
  defines "F \<equiv> final_content prov c ctx (system_prompt b isFollowUp)"
  defines "streamed \<equiv> calls @ [(ch, StreamStart (m_id msg) ch botUser threadID)]
      @ map (\<lambda>(d, f). (ch, StreamDelta (m_id msg) ch d f))
          (delta_calls prov c ctx (system_prompt b isFollowUp))"
  shows "sendMentionedBotResponse tables prov clk h ch userMessage threadID b isFollowUp =
     (if isFollowUp \<and> TrimSpace (ToLower tables F) = ''pass''
      then h\<lparr>mh_store := fst (DeleteMessage s1 (m_id msg)),
             mh_hub := Some (streamed @ [(ch, StreamEnd (m_id msg) ch [])])\<rparr>
      else h\<lparr>mh_store := UpdateMessageContent s1 (m_id msg) F,
             mh_hub := Some (streamed @ [(ch, StreamEnd (m_id msg) ch F),
                                        (ch, NewMessage (msg\<lparr>m_content := F\<rparr>))]),
             mh_lastBotResponse := (mh_lastBotResponse h)(ch \<mapsto> (b, responded clk))\<rparr>)"
proof -
  let ?h1 = "hub_broadcast ch (StreamStart (m_id msg) ch botUser threadID) (h\<lparr>mh_store := s1\<rparr>)"
  have h1: "?h1 = h\<lparr>mh_store := s1,
      mh_hub := Some (calls @ [(ch, StreamStart (m_id msg) ch botUser threadID)])\<rparr>"
    using assms(4) by (simp add: hub_broadcast_def)
  have h2: "foldl (\<lambda>s (d, f). hub_broadcast ch (StreamDelta (m_id msg) ch d f) s) ?h1
      (delta_calls prov c ctx (system_prompt b isFollowUp))
      = h\<lparr>mh_store := s1, mh_hub := Some streamed\<rparr>"
    unfolding h1 streamed_def
    by (subst hub_broadcast_fold [where calls = "calls @ [(ch, StreamStart (m_id msg) ch botUser threadID)]"])
       simp_all
  show ?thesis
    unfolding sendMentionedBotResponse_def
    apply (simp only: assms(1,2,3) option.case Let_def prod.case
        StreamResponseWithContext_callbacks ctx_def [symmetric] h2
        final_content_def [symmetric] F_def [symmetric])
    apply (simp add: hub_broadcast_def recordBotResponse_def)
    done
qed





lemma not_in_mapD: "y \<notin> set (map f xs) \<Longrightarrow> x \<in> set xs \<Longrightarrow> f x \<noteq> y"
  by (metis image_eqI set_map)


lemma exec_delete_messages_ok:
  assumes "foreign_keys s \<Longrightarrow>
     \<forall>m \<in> set (messages s). \<not> P m \<longrightarrow>
       (\<forall>t. m_thread_id m = Some t \<longrightarrow> t \<notin> set (map m_id (filter P (messages s))))"
  shows "\<exists>s'. exec_delete_messages P s = Inr s'
           \<and> messages s' = filter (\<lambda>m. \<not> P m) (messages s)
           \<and> foreign_keys s' = foreign_keys s"
proof (cases "foreign_keys s")
  case False
  then show ?thesis by (simp add: exec_delete_messages_def)
next
  case True
  from assms [OF True]
  have "\<not> list_ex (\<lambda>m. case m_thread_id m of Some t \<Rightarrow> t \<in> set (map m_id (filter P (messages s)))
                        | None \<Rightarrow> False) (filter (\<lambda>m. \<not> P m) (messages s))"
    by (auto simp: list_ex_iff split: option.splits)
  with True show ?thesis by (simp add: exec_delete_messages_def Let_def)
qed

lemma DeleteMessage_placeholder:
  assumes "CreateMessage s new_id now ch uid content threadID = Some (msg, s1)"
    and "Some new_id \<notin> set (map m_thread_id (messages s))"
  shows "messages (fst (DeleteMessage s1 new_id)) = messages s"
proof -
  from CreateMessage_row [OF assms(1)]
  have msg: "m_id msg = new_id" "m_thread_id msg = threadID"
    and s1: "s1 = s\<lparr>messages := messages s @ [msg]\<rparr>"
    and fresh: "new_id \<notin> set (map m_id (messages s))" by simp_all
  have nt: "m_thread_id m \<noteq> Some new_id" if "m \<in> set (messages s)" for m
    using not_in_mapD [OF assms(2) that] .
  have ni: "m_id m \<noteq> new_id" if "m \<in> set (messages s)" for m
    using not_in_mapD [OF fresh that] .
  have fk: "threadID \<noteq> Some new_id" if "foreign_keys s"
    using assms(1) fresh that by (auto simp: CreateMessage_def Let_def split: if_splits)
  let ?P1 = "\<lambda>m. m_thread_id m = Some new_id"
  let ?P2 = "\<lambda>m. m_id m = new_id"
  have gone1: "filter ?P1 (messages s1) = []" if "foreign_keys s1"
    using fk that by (simp add: s1 filter_empty_conv nt msg)
  have "\<exists>s'. exec_delete_messages ?P1 s1 = Inr s'
           \<and> messages s' = filter (\<lambda>m. \<not> ?P1 m) (messages s1)
           \<and> foreign_keys s' = foreign_keys s1"
    by (rule exec_delete_messages_ok) (simp add: gone1)
  then obtain s2 where e1: "exec_delete_messages ?P1 s1 = Inr s2"
    and m2: "messages s2 = filter (\<lambda>m. \<not> ?P1 m) (messages s1)" by blast
  have k2: "messages s2 = messages s @ (if threadID = Some new_id then [] else [msg])"
    by (simp add: m2 s1 filter_id_conv nt msg)
  have "\<exists>s'. exec_delete_messages ?P2 s2 = Inr s'
           \<and> messages s' = filter (\<lambda>m. \<not> ?P2 m) (messages s2)
           \<and> foreign_keys s' = foreign_keys s2"
  proof (rule exec_delete_messages_ok, intro ballI impI allI)
    fix m t assume "m \<in> set (messages s2)" "\<not> m_id m = new_id" "m_thread_id m = Some t"
    then have "m \<in> set (messages s)" by (auto simp: k2 msg split: if_splits)
    with \<open>m_thread_id m = Some t\<close> have "t \<noteq> new_id" using nt by auto
    then show "t \<notin> set (map m_id (filter ?P2 (messages s2)))" by auto
  qed
  then obtain s3 where e2: "exec_delete_messages ?P2 s2 = Inr s3"
    and m3: "messages s3 = filter (\<lambda>m. \<not> ?P2 m) (messages s2)" by blast
  have "messages s3 = messages s"
    by (simp add: m3 k2 filter_id_conv ni msg)
  with e1 e2 show ?thesis by (simp add: DeleteMessage_def)
qed

lemma DeleteMessage_placeholder_replies:
  assumes "CreateMessage s new_id now ch uid content threadID = Some (msg, s1)"
    and "foreign_keys s \<Longrightarrow> Some new_id \<notin> set (map m_thread_id (messages s))"
  shows "messages (fst (DeleteMessage s1 new_id))
     = filter (\<lambda>m. m_thread_id m \<noteq> Some new_id) (messages s)"
proof (cases "foreign_keys s")
  case True
  from assms(2) [OF True] have "filter (\<lambda>m. m_thread_id m \<noteq> Some new_id) (messages s) = messages s"
    by (simp add: filter_id_conv not_in_mapD)
  with DeleteMessage_placeholder [OF assms(1) assms(2) [OF True]] show ?thesis by simp
next
  case False
  from CreateMessage_row [OF assms(1)]
  have msg: "m_id msg = new_id"
    and s1: "s1 = s\<lparr>messages := messages s @ [msg]\<rparr>"
    and fresh: "new_id \<notin> set (map m_id (messages s))" by simp_all
  have ni: "m_id m \<noteq> new_id" if "m \<in> set (messages s)" for m
    using not_in_mapD [OF fresh that] .
  have "filter (\<lambda>m. m_thread_id m \<noteq> Some new_id \<and> m_id m \<noteq> new_id) (messages s)
      = filter (\<lambda>m. m_thread_id m \<noteq> Some new_id) (messages s)"
    by (rule filter_cong) (auto dest: ni)
  with False show ?thesis
    by (simp add: s1 msg DeleteMessage_def exec_delete_messages_def)
qed


lemmas run_eval = sendMentionedBotResponse_def quiet_handler_def helper_bot_def helper_user_def
  first_run_def GetUserByID_def CreateMessage_def StreamResponseWithContext_def
  sample_unmarshal_def delta_event_def done_event_def loop_body_def HasPrefix_def hub_broadcast_def
  UpdateMessageContent_def recordBotResponse_def apology_def apostrophe_def
  DeleteMessage_def exec_delete_messages_def placeholder_row_def


lemma lower_pass: "TrimSpace (ToLower latin_case (''Pass'' @ nbsp)) = ''pass''"
  by (simp add: nbsp_def string_eval latin_case_def)




text \<open>
  C4: in a follow-up run whose finalized text, lower-cased and trimmed as Go does it, is
  \<open>pass\<close>, the placeholder row is gone from the store afterwards (the messages are
  those from before the run, without any that named the placeholder's id as its
  parent), the broadcasts of the run are the stream-start, the deltas and, at the end,
  one stream-end with empty content, and none of them is a new-message. In a store
  that enforces foreign keys the delete can only succeed when no earlier message names
  the new id as its parent; the repository's store does not enforce them.
\<close>

theorem follow_up_pass_cleanup:
  fixes prov :: provider and userMessage :: string and tables :: case_tables
  assumes client: "mh_aiClients h (bot_Provider b) = Some c"
    and user: "GetUserByID (mh_store h) (bot_ID b) = Some botUser"
    and placeholder: "CreateMessage (mh_store h) (new_uuid clk) (created clk) ch (bot_ID b) [] threadID
        = Some (msg, s1)"
    and hub: "mh_hub h = Some calls"
    and no_reply: "foreign_keys (mh_store h) \<Longrightarrow>
        Some (new_uuid clk) \<notin> set (map m_thread_id (messages (mh_store h)))"
    and pass: "TrimSpace (ToLower tables (final_content prov c
        (build_context (GetChannelMessages (mh_store h) ch 4) userMessage b) (system_prompt b True)))
        = ''pass''"
  defines "h' \<equiv> sendMentionedBotResponse tables prov clk h ch userMessage threadID b True"
  defines "streamed \<equiv> [(ch, StreamStart (new_uuid clk) ch botUser threadID)]
        @ map (\<lambda>(d, f). (ch, StreamDelta (new_uuid clk) ch d f))
            (delta_calls prov c (build_context (GetChannelMessages (mh_store h) ch 4) userMessage b)
               (system_prompt b True))"
  shows "new_uuid clk \<notin> set (map m_id (messages (mh_store h')))
     \<and> messages (mh_store h')
         = filter (\<lambda>m. m_thread_id m \<noteq> Some (new_uuid clk)) (messages (mh_store h))
     \<and> mh_hub h' = Some (calls @ streamed @ [(ch, StreamEnd (new_uuid clk) ch [])])
     \<and> (\<forall>channel m. (channel, NewMessage m) \<notin> set (streamed @ [(ch, StreamEnd (new_uuid clk) ch [])]))"
proof -
  from CreateMessage_row [OF placeholder]
  have mid: "m_id msg = new_uuid clk"
    and fresh: "new_uuid clk \<notin> set (map m_id (messages (mh_store h)))" by simp_all
  note shape = run_shape [OF client user placeholder hub,
      where tables = tables and prov = prov and userMessage = userMessage and isFollowUp = True,
      unfolded mid, folded h'_def]
  have st: "mh_store h' = fst (DeleteMessage s1 (new_uuid clk))"
    and hb: "mh_hub h' = Some (calls @ streamed @ [(ch, StreamEnd (new_uuid clk) ch [])])"
    unfolding shape streamed_def using pass by simp_all
  have ms: "messages (mh_store h')
      = filter (\<lambda>m. m_thread_id m \<noteq> Some (new_uuid clk)) (messages (mh_store h))"
    unfolding st by (rule DeleteMessage_placeholder_replies [OF placeholder no_reply])
  have gone: "new_uuid clk \<notin> set (map m_id (messages (mh_store h')))"
    unfolding ms using fresh by auto
  have "(channel, NewMessage m) \<notin> set (streamed @ [(ch, StreamEnd (new_uuid clk) ch [])])"
    for channel m
    by (auto simp: streamed_def)
  with ms gone hb show ?thesis by simp
qed

theorem follow_up_pass_cleanup_witness:
  "mh_aiClients quiet_handler (bot_Provider helper_bot) = Some \<lparr>apiKey = ''key'', model = ''gpt''\<rparr>
   \<and> GetUserByID (mh_store quiet_handler) (bot_ID helper_bot) = Some helper_user
   \<and> CreateMessage (mh_store quiet_handler) (new_uuid first_run) (created first_run) ''c1''
        (bot_ID helper_bot) [] None
      = Some (placeholder_row, (mh_store quiet_handler)\<lparr>messages := [placeholder_row]\<rparr>)
   \<and> mh_hub quiet_handler = Some []
   \<and> \<not> foreign_keys (mh_store quiet_handler)
   \<and> final_content passing_provider \<lparr>apiKey = ''key'', model = ''gpt''\<rparr>
        (build_context (GetChannelMessages (mh_store quiet_handler) ''c1'' 4) ''thanks'' helper_bot)
        (system_prompt helper_bot True) = ''Pass'' @ nbsp
   \<and> TrimSpace (ToLower latin_case (''Pass'' @ nbsp)) = ''pass''
   \<and> messages (mh_store (sendMentionedBotResponse latin_case passing_provider first_run quiet_handler
          ''c1'' ''thanks'' None helper_bot True)) = []
   \<and> mh_hub (sendMentionedBotResponse latin_case passing_provider first_run quiet_handler ''c1''
          ''thanks'' None helper_bot True)
     = Some [(''c1'', StreamStart ''p1'' ''c1'' helper_user None),
             (''c1'', StreamDelta ''p1'' ''c1'' (''Pass'' @ nbsp) (''Pass'' @ nbsp)),
             (''c1'', StreamEnd ''p1'' ''c1'' [])]"
proof -
  let ?c = "\<lparr>apiKey = ''key'', model = ''gpt''\<rparr>"
  let ?ctx = "build_context (GetChannelMessages (mh_store quiet_handler) ''c1'' 4) ''thanks'' helper_bot"
  have a1: "mh_aiClients quiet_handler (bot_Provider helper_bot) = Some ?c"
    by (simp add: quiet_handler_def helper_bot_def)
  have a2: "GetUserByID (mh_store quiet_handler) (bot_ID helper_bot) = Some helper_user"
    by (simp add: run_eval)
  have a3: "CreateMessage (mh_store quiet_handler) (new_uuid first_run) (created first_run) ''c1''
        (bot_ID helper_bot) [] None
      = Some (placeholder_row, (mh_store quiet_handler)\<lparr>messages := [placeholder_row]\<rparr>)"
    by (simp add: run_eval Let_def)
  have a4: "mh_hub quiet_handler = Some []" by (simp add: quiet_handler_def)
  have a5: "\<not> foreign_keys (mh_store quiet_handler)" by (simp add: quiet_handler_def)
  then have a5': "foreign_keys (mh_store quiet_handler) \<Longrightarrow>
      Some (new_uuid first_run) \<notin> set (map m_thread_id (messages (mh_store quiet_handler)))"
    by simp
  have F: "final_content passing_provider ?c ?ctx (system_prompt helper_bot True) = ''Pass'' @ nbsp"
    by (simp add: final_content_def stream_result_def run_eval passing_provider_def)
  note P = lower_pass
  have a6: "TrimSpace (ToLower latin_case
        (final_content passing_provider ?c ?ctx (system_prompt helper_bot True))) = ''pass''"
    unfolding F by (rule P)
  have D: "delta_calls passing_provider ?c ?ctx (system_prompt helper_bot True)
      = [(''Pass'' @ nbsp, ''Pass'' @ nbsp)]"
    by (simp add: delta_calls_def run_eval passing_provider_def)
  have n: "new_uuid first_run = ''p1''" by (simp add: first_run_def)
  have m0: "messages (mh_store quiet_handler) = []" by (simp add: quiet_handler_def)
  note w = follow_up_pass_cleanup [OF a1 a2 a3 a4 a5' a6, unfolded D n m0]
  show ?thesis using w a1 a2 a3 a4 a5 F P by simp
qed

section \<open>Post-push synchronisation\<close>

lemma extract_files_last:
  "extract_files repo entries (h, c, j) =
     (last (h # found_blobs repo entries ''index.html''),
      last (c # found_blobs repo entries ''styles.css''),
      last (j # found_blobs repo entries ''script.js''))"
proof (induction entries arbitrary: h c j)
  case Nil
  then show ?case by (simp add: found_blobs_def)
next
  case (Cons e entries)
  obtain n hash where e: "e = (n, hash)" by (cases e)
  have fb: "found_blobs repo ((n, hash) # entries) name =
      (if n = name then (case objects repo hash of Some (Blob content) \<Rightarrow> [content] | _ \<Rightarrow> []) else [])
      @ found_blobs repo entries name" for name
    by (simp add: found_blobs_def)
  have l2: "last (x # y # ys) = last (y # ys)" for x y :: string and ys by simp
  show ?case
  proof (cases "objects repo hash")
    case None
    then show ?thesis by (simp add: e fb Cons del: last.simps)
  next
    case (Some obj)
    then show ?thesis by (cases obj) (simp_all add: e fb Cons l2 del: last.simps)
  qed
qed

lemma extract_files_blob_named:
  "extract_files repo entries ([], [], []) =
     (blob_named repo entries ''index.html'', blob_named repo entries ''styles.css'',
      blob_named repo entries ''script.js'')"
  by (simp only: extract_files_last blob_named_def)

lemma find_updated_app:
  fixes f :: "app_row \<Rightarrow> app_row"
  assumes "\<And>a. a_id a = appID \<Longrightarrow> a_id (f a) = appID" and "\<And>a. a_id a \<noteq> appID \<Longrightarrow> f a = a"
  shows "\<exists>a \<in> set xs. a_id a = appID \<Longrightarrow>
     \<exists>a \<in> set xs. a_id a = appID \<and> find (\<lambda>a. a_id a = appID) (map f xs) = Some (f a)"
proof (induction xs)
  case Nil then show ?case by simp
next
  case (Cons x xs)
  show ?case
  proof (cases "a_id x = appID")
    case True
    with assms(1) [of x] show ?thesis by simp
  next
    case False
    with Cons.prems have "\<exists>a \<in> set xs. a_id a = appID" by auto
    from Cons.IH [OF this] False assms(2) [of x] show ?thesis by auto
  qed
qed

lemma GetApp_after_update:
  assumes "\<exists>a \<in> set (apps s). a_id a = appID"
  shows "\<exists>app. GetApp (UpdateAppCode s appID h c j now) appID = Some app
     \<and> a_html_content app = h \<and> a_css_content app = c \<and> a_js_content app = j
     \<and> a_updated_at app = now"
proof -
  define f where "f = (\<lambda>a :: app_row. if a_id a = appID
      then a\<lparr>a_html_content := h, a_css_content := c, a_js_content := j, a_updated_at := now\<rparr>
      else a)"
  have f1: "a_id (f a) = appID" if "a_id a = appID" for a using that by (simp add: f_def)
  have f2: "f a = a" if "a_id a \<noteq> appID" for a using that by (simp add: f_def)
  from find_updated_app [of appID f "apps s", OF f1 f2 assms]
  obtain a where a: "find (\<lambda>a. a_id a = appID) (map f (apps s)) = Some (f a)" "a_id a = appID"
    by blast
  have g: "GetApp (UpdateAppCode s appID h c j now) appID = find (\<lambda>a. a_id a = appID) (map f (apps s))"
    by (simp add: GetApp_def UpdateAppCode_def f_def)
  have "a_html_content (f a) = h \<and> a_css_content (f a) = c \<and> a_js_content (f a) = j
     \<and> a_updated_at (f a) = now" using a(2) by (simp add: f_def)
  with g a(1) show ?thesis by simp
qed

lemma UpdateAppCode_rows:
  assumes "a \<in> set (apps (UpdateAppCode s appID h c j now))" and "a_id a = appID"
  shows "a_html_content a = h \<and> a_css_content a = c \<and> a_js_content a = j \<and> a_updated_at a = now"
proof -
  define f where "f = (\<lambda>a :: app_row. if a_id a = appID
      then a\<lparr>a_html_content := h, a_css_content := c, a_js_content := j, a_updated_at := now\<rparr>
      else a)"
  have "apps (UpdateAppCode s appID h c j now) = map f (apps s)"
    by (simp add: UpdateAppCode_def f_def)
  with assms(1) have "a \<in> f ` set (apps s)" by (simp only: set_map)
  then obtain b where b: "a = f b" by blast
  show ?thesis
  proof (cases "a_id b = appID")
    case True with b show ?thesis by (simp add: f_def)
  next
    case False with b assms(2) show ?thesis by (simp add: f_def)
  qed
qed

lemma syncGitToDatabase_ok:
  assumes "syncGitToDatabase s appID repo now = Inr s'"
  shows "\<exists>entries. head_tree repo = Some entries
     \<and> s' = UpdateAppCode s appID (blob_named repo entries ''index.html'')
              (blob_named repo entries ''styles.css'') (blob_named repo entries ''script.js'') now"
  using assms
  by (auto simp: syncGitToDatabase_def head_tree_def extract_files_blob_named
      split: option.splits git_object.splits)

lemma error_reply_not_ok:
  "PktLine (''unpack ok'' @ newline) \<notin> set (sendReceivePackError ''Failed to read request'')"
  "PktLine (''unpack ok'' @ newline) \<notin> set (sendReceivePackError ''No commands in request'')"
  "PktLine (''unpack ok'' @ newline) \<notin> set (sendReceivePackError (''Failed to apply packfile: '' @ err))"
  "PktLine (''unpack ok'' @ newline) \<notin> set (sendReceivePackError (''Failed to update ref: '' @ err))"
  "PktLine (''unpack ok'' @ newline) \<notin> set (sendReceivePackError (''Failed to sync files: '' @ err))"
  by (simp_all add: sendReceivePackError_def)

lemma ReceivePack_accepted:
  assumes "ReceivePack hub s req opened now = (s', repo', outs)"
    and "PktLine (''unpack ok'' @ newline) \<in> set outs"
  shows "\<exists>cmds pack repo userID. pr_body req = Some (cmds, pack) \<and> repo' = Some repo
     \<and> pr_auth req = Claims userID \<and> authorizeWrite s (pr_appID req) userID = None
     \<and> syncGitToDatabase s (pr_appID req) repo now = Inr s'
     \<and> outs = broadcastCodeUpdate hub s' (pr_appID req) @ sendReceivePackSuccess cmds"
  using assms error_reply_not_ok
  unfolding ReceivePack_def Let_def
  by (auto split: if_splits credentials.splits option.splits prod.splits sum.splits)

lemma authorized_app_exists:
  assumes "authorizeWrite s appID userID = None"
    and "\<forall>m \<in> set (app_members s). \<exists>a \<in> set (apps s). a_id a = am_app_id m"
  shows "\<exists>a \<in> set (apps s). a_id a = appID"
proof -
  from assms(1) obtain m where "find (\<lambda>r. am_app_id r = appID \<and> am_user_id r = userID) (app_members s) = Some m"
    by (auto simp: authorizeWrite_def GetAppMemberRole_def split: option.splits)
  then have "m \<in> set (app_members s)" "am_app_id m = appID"
    by (auto simp: find_Some_iff)
  with assms(2) show ?thesis by auto
qed

text \<open>
  What the push handler does for an app whose row exists: when it answers with the
  success reply (\<open>unpack ok\<close>), on a handler with a hub, the repository afterwards has a
  tree at \<open>HEAD\<close>; every app row of that id holds the contents of the blobs named
  \<open>index.html\<close>, \<open>styles.css\<close> and \<open>script.js\<close> in that tree (empty for a name the
  tree has no blob for); and what the handler sends out is first the
  \<open>app_code_updated\<close> broadcast to the app, carrying that triplet and the update time,
  and then the packets of the success reply.
\<close>

lemma receive_pack_syncs_existing_app:
  assumes "ReceivePack hub s req opened now = (s', repo', outs)"
    and "PktLine (''unpack ok'' @ newline) \<in> set outs"
    and "hub"
    and "\<exists>a \<in> set (apps s). a_id a = pr_appID req"
  shows "\<exists>cmds pack repo entries.
       pr_body req = Some (cmds, pack) \<and> repo' = Some repo \<and> head_tree repo = Some entries
     \<and> (\<forall>a \<in> set (apps s'). a_id a = pr_appID req \<longrightarrow>
            a_html_content a = blob_named repo entries ''index.html''
          \<and> a_css_content a = blob_named repo entries ''styles.css''
          \<and> a_js_content a = blob_named repo entries ''script.js'')
     \<and> (\<exists>a \<in> set (apps s'). a_id a = pr_appID req)
     \<and> outs = Sent (pr_appID req)
                 (AppCodeUpdated (pr_appID req) (blob_named repo entries ''index.html'')
                    (blob_named repo entries ''styles.css'') (blob_named repo entries ''script.js'') now)
               # sendReceivePackSuccess cmds"
proof -
  from ReceivePack_accepted [OF assms(1,2)]
  obtain cmds pack repo where b: "pr_body req = Some (cmds, pack)" and r: "repo' = Some repo"
    and sy: "syncGitToDatabase s (pr_appID req) repo now = Inr s'"
    and o: "outs = broadcastCodeUpdate hub s' (pr_appID req) @ sendReceivePackSuccess cmds"
    by blast
  let ?h = "\<lambda>entries. blob_named repo entries ''index.html''"
  let ?c = "\<lambda>entries. blob_named repo entries ''styles.css''"
  let ?j = "\<lambda>entries. blob_named repo entries ''script.js''"
  from syncGitToDatabase_ok [OF sy]
  obtain entries where t: "head_tree repo = Some entries"
    and s': "s' = UpdateAppCode s (pr_appID req) (?h entries) (?c entries) (?j entries) now"
    by blast
  from GetApp_after_update [OF assms(4), of "?h entries" "?c entries" "?j entries" now]
  obtain app where g: "GetApp s' (pr_appID req) = Some app"
    and app: "a_html_content app = ?h entries" "a_css_content app = ?c entries"
      "a_js_content app = ?j entries" "a_updated_at app = now"
    unfolding s' by blast
  have rows: "\<forall>a \<in> set (apps s'). a_id a = pr_appID req \<longrightarrow>
       a_html_content a = ?h entries \<and> a_css_content a = ?c entries \<and> a_js_content a = ?j entries"
    using UpdateAppCode_rows [of _ s "pr_appID req" "?h entries" "?c entries" "?j entries" now]
    unfolding s' by blast
  have ex: "\<exists>a \<in> set (apps s'). a_id a = pr_appID req"
    using g by (auto simp: GetApp_def find_Some_iff)
  have "outs = Sent (pr_appID req)
        (AppCodeUpdated (pr_appID req) (?h entries) (?c entries) (?j entries) now)
      # sendReceivePackSuccess cmds"
    using o g app assms(3) by (simp add: broadcastCodeUpdate_def)
  with b r t rows ex show ?thesis by blast
qed

text \<open>
  The schema ties every membership to an app (\<open>app_members.app_id REFERENCES apps(id)\<close>).
  In a store where that reference holds, the app of an authorised push has its row, so
  every push answered with the success reply is synchronised and broadcast first.
\<close>

lemma receive_pack_syncs_with_integrity:
  assumes "ReceivePack hub s req opened now = (s', repo', outs)"
    and "PktLine (''unpack ok'' @ newline) \<in> set outs"
    and "hub"
    and "\<forall>m \<in> set (app_members s). \<exists>a \<in> set (apps s). a_id a = am_app_id m"
  shows "\<exists>cmds pack repo entries.
       pr_body req = Some (cmds, pack) \<and> repo' = Some repo \<and> head_tree repo = Some entries
     \<and> (\<forall>a \<in> set (apps s'). a_id a = pr_appID req \<longrightarrow>
            a_html_content a = blob_named repo entries ''index.html''
          \<and> a_css_content a = blob_named repo entries ''styles.css''
          \<and> a_js_content a = blob_named repo entries ''script.js'')
     \<and> (\<exists>a \<in> set (apps s'). a_id a = pr_appID req)
     \<and> outs = Sent (pr_appID req)
                 (AppCodeUpdated (pr_appID req) (blob_named repo entries ''index.html'')
                    (blob_named repo entries ''styles.css'') (blob_named repo entries ''script.js'') now)
               # sendReceivePackSuccess cmds"
proof -
  from ReceivePack_accepted [OF assms(1,2)]
  obtain userID where "authorizeWrite s (pr_appID req) userID = None" by blast
  from authorized_app_exists [OF this assms(4)]
  show ?thesis by (rule receive_pack_syncs_existing_app [OF assms(1,2,3)])
qed

lemmas push_eval = ReceivePack_def notes_store_def notes_app_def notes_id_def
  authorizeWrite_def GetAppMemberRole_def applyPackfile_def updateRef_def syncGitToDatabase_def
  Head_def UpdateAppCode_def broadcastCodeUpdate_def GetApp_def sendReceivePackSuccess_def
  DeleteApp_def

lemma push_to_existing_app:
  "apps (fst (ReceivePack True notes_store notes_push (Some seeded_repo) 9))
       = [notes_app\<lparr>a_html_content := ''<h1>hi</h1>'', a_updated_at := 9\<rparr>]
   \<and> snd (snd (ReceivePack True notes_store notes_push (Some seeded_repo) 9))
       = [Sent notes_id (AppCodeUpdated notes_id ''<h1>hi</h1>'' ''p {}'' ''let x'' 9),
          PktLine (''unpack ok'' @ newline), PktLine (''ok refs/heads/main'' @ newline), Flush]"
  by (simp add: push_eval notes_push_def seeded_repo_def push_main_def)

text \<open>
  C5 on the code: the store is opened without enabling foreign keys, so deleting an app
  leaves its memberships behind (the schema's \<open>ON DELETE CASCADE\<close> on
  \<open>app_members.app_id\<close> is not enforced). The former owner is still authorised to
  push: the push to the re-initialised repository is answered with the success reply
  although no app row exists, none is updated and nothing is broadcast, while the tree
  at \<open>HEAD\<close> now holds an \<open>index.html\<close>. With foreign keys enforced the same push is
  refused with status 403.
\<close>

theorem push_after_DeleteApp_unsynced:
  "foreign_keys notes_store = False
   \<and> apps (DeleteApp notes_store notes_id) = []
   \<and> authorizeWrite (DeleteApp notes_store notes_id) notes_id ''u1'' = None
   \<and> fst (ReceivePack True (DeleteApp notes_store notes_id) master_push (Some fresh_repo) 9)
       = DeleteApp notes_store notes_id
   \<and> snd (snd (ReceivePack True (DeleteApp notes_store notes_id) master_push (Some fresh_repo) 9))
       = [PktLine (''unpack ok'' @ newline), PktLine (''ok refs/heads/master'' @ newline), Flush]
   \<and> map_option head_tree
        (fst (snd (ReceivePack True (DeleteApp notes_store notes_id) master_push (Some fresh_repo) 9)))
       = Some (Some [(''index.html'', ''b4'')])
   \<and> map_option (\<lambda>repo. blob_named repo [(''index.html'', ''b4'')] ''index.html'')
        (fst (snd (ReceivePack True (DeleteApp notes_store notes_id) master_push (Some fresh_repo) 9)))
       = Some ''<h1>hi</h1>''
   \<and> snd (snd (ReceivePack True (DeleteApp (notes_store\<lparr>foreign_keys := True\<rparr>) notes_id)
        master_push (Some fresh_repo) 9))
       = [HttpFail 403 ''not a member of this app'']"
  by (simp add: push_eval master_push_def fresh_repo_def head_tree_def blob_named_def found_blobs_def)

section \<open>Deleting a message: what is removed\<close>

lemma DeleteMessage_without_foreign_keys:
  "\<not> foreign_keys s \<Longrightarrow>
   DeleteMessage s mid =
     (s\<lparr>messages := filter (\<lambda>m. m_id m \<noteq> mid) (filter (\<lambda>m. m_thread_id m \<noteq> Some mid) (messages s))\<rparr>,
      None)"
  by (simp add: DeleteMessage_def exec_delete_messages_def)

text \<open>
  C6 on the code: the store is opened without enabling foreign keys, so the
  \<open>ON DELETE CASCADE\<close> declared for reactions is not enforced. Deleting message
  \<open>m1\<close>, which has a reply and a reaction, removes the message and the reply, reports
  no error, and leaves the reaction on \<open>m1\<close> in the table.
\<close>

theorem DeleteMessage_leaves_reactions:
  "DeleteMessage reacted_store ''m1'' = (reacted_store\<lparr>messages := []\<rparr>, None)
   \<and> reactions (fst (DeleteMessage reacted_store ''m1''))
       = [\<lparr>r_id = ''r1'', r_message_id = ''m1'', r_user_id = ''u1'', r_emoji = ''+1''\<rparr>]
   \<and> foreign_keys reacted_store = False"
  by (simp add: DeleteMessage_def exec_delete_messages_def reacted_store_def)

section \<open>Pagination: the window size\<close>

lemma length_GetChannelMessagesBefore:
  "0 \<le> limit \<Longrightarrow> length (GetChannelMessagesBefore s c limit b) \<le> nat limit"
  by (simp add: GetChannelMessagesBefore_def sql_limit_def)

lemma query_limit_range: "0 < query_limit l \<and> query_limit l \<le> 100"
  by (simp add: query_limit_def split: option.splits)

text \<open>
  C7, as stated, fails on the code: a request for more than 100 messages is not clamped
  to 100. With 101 messages in the channel, \<open>limit=500\<close> returns the default window of
  50 messages.
\<close>

theorem limit_above_100_not_clamped:
  "Atoi ''500'' = Some 500 \<and> query_limit ''500'' = 50 \<and> query_limit ''500'' \<noteq> 100
   \<and> length (response_messages (GetChannelMessages_handler busy_channel_store ''c1'' ''500'' None)) = 50"
  by (simp add: GetChannelMessages_handler_def GetChannelMessages_def GetChannelMessagesBefore_def
      busy_channel_store_def ann_def query_limit_def Atoi_eval sql_limit_def response_messages_def)

text \<open>
  C7, amended: the window is the requested limit when that parses to a number from 1 to
  100; in every other case (absent, empty, not a number, at most 0, or above 100) it
  is the default 50. The handler answers with the newest-first window of that size,
  so with at most that many messages.
\<close>

theorem channel_messages_window:
  "(l = [] \<or> Atoi l = None \<or> (\<exists>n. Atoi l = Some n \<and> (n \<le> 0 \<or> 100 < n))
      \<longrightarrow> query_limit l = 50)
   \<and> (\<forall>n. Atoi l = Some n \<and> 0 < n \<and> n \<le> 100 \<longrightarrow> query_limit l = n)
   \<and> (channelID \<noteq> [] \<longrightarrow>
        GetChannelMessages_handler s channelID l before
          = JsonMessages (GetChannelMessagesBefore s channelID (query_limit l) before)
        \<and> length (GetChannelMessagesBefore s channelID (query_limit l) before)
            \<le> nat (query_limit l))"
proof (intro conjI impI allI)
  assume "l = [] \<or> Atoi l = None \<or> (\<exists>n. Atoi l = Some n \<and> (n \<le> 0 \<or> 100 < n))"
  then show "query_limit l = 50"
    by (auto simp: query_limit_def)
next
  fix n assume "Atoi l = Some n \<and> 0 < n \<and> n \<le> 100"
  then show "query_limit l = n"
    by (auto simp: query_limit_def Atoi_def Let_def split: if_splits)
next
  assume "channelID \<noteq> []"
  then show "GetChannelMessages_handler s channelID l before
          = JsonMessages (GetChannelMessagesBefore s channelID (query_limit l) before)"
    by (cases before) (simp_all add: GetChannelMessages_handler_def GetChannelMessages_def)
next
  have "0 \<le> query_limit l" using query_limit_range [of l] by simp
  then show "length (GetChannelMessagesBefore s channelID (query_limit l) before)
            \<le> nat (query_limit l)"
    by (rule length_GetChannelMessagesBefore)
qed

theorem channel_messages_window_witness:
  "Atoi ''500'' = Some 500 \<and> (100::int) < 500 \<and> query_limit ''500'' = 50
   \<and> Atoi ''70'' = Some 70 \<and> query_limit ''70'' = 70
   \<and> ''c1'' \<noteq> []
   \<and> GetChannelMessages_handler busy_channel_store ''c1'' ''70'' None
       = JsonMessages (GetChannelMessagesBefore busy_channel_store ''c1'' 70 None)
   \<and> length (GetChannelMessagesBefore busy_channel_store ''c1'' 70 None) \<le> 70"
proof -
  have a: "Atoi ''500'' = Some 500" "Atoi ''70'' = Some 70" by (simp_all add: Atoi_eval)
  note w1 = channel_messages_window [of "''500''" "''c1''" busy_channel_store None]
  note w2 = channel_messages_window [of "''70''" "''c1''" busy_channel_store None]
  have q1: "query_limit ''500'' = 50" using w1 a by simp
  have q2: "query_limit ''70'' = 70" using w2 a by simp
  show ?thesis using w2 a q1 q2 by simp
qed

section \<open>Resolving a custom command by name\<close>

lemma sort_key_head_least:
  assumes "sort_key f xs = y # ys" and "x \<in> set xs"
  shows "f y \<le> f x"
proof -
  have "sorted (map f (sort_key f xs))" by (rule sorted_sort_key)
  then have "\<forall>z \<in> set ys. f y \<le> f z" using assms(1) by simp
  moreover have "x \<in> set (sort_key f xs)" using assms(2) by simp
  ultimately show ?thesis using assms(1) by auto
qed

text \<open>
  C8: a resolved command is a row of the table with the requested name, enabled, and
  either global or created by the user; when the user has an enabled private command
  of that name, the command returned is private to the user (not global), whatever
  global commands of the same name exist.
\<close>

theorem command_by_name_prefers_private:
  "(GetCommandByName s name userID = Some cmd \<longrightarrow>
      cmd \<in> set (custom_commands s) \<and> c_name cmd = name \<and> c_enabled cmd
      \<and> (c_is_global cmd \<or> c_created_by cmd = userID))
   \<and> ((\<exists>p \<in> set (custom_commands s).
          c_name p = name \<and> \<not> c_is_global p \<and> c_created_by p = userID \<and> c_enabled p) \<longrightarrow>
       (\<exists>c. GetCommandByName s name userID = Some c \<and> \<not> c_is_global c \<and> c_created_by c = userID
             \<and> c_name c = name \<and> c_enabled c))"
proof -
  define sel where "sel = (\<lambda>c :: command_row. c_name c = name
      \<and> ((c_is_global c = False \<and> c_created_by c = userID) \<or> c_is_global c = True)
      \<and> c_enabled c = True)"
  define rows where "rows = sort_key c_is_global (filter sel (custom_commands s))"
  have G: "GetCommandByName s name userID = (case rows of [] \<Rightarrow> None | c # r \<Rightarrow> Some c)"
    by (cases rows) (simp_all add: GetCommandByName_def rows_def sel_def sql_limit_def)
  have in_rows: "c \<in> set rows \<longleftrightarrow> c \<in> set (custom_commands s) \<and> sel c" for c
    by (simp add: rows_def)
  show ?thesis
  proof (rule conjI; rule impI)
    assume "GetCommandByName s name userID = Some cmd"
    with G have "cmd \<in> set rows" by (cases rows) auto
    then show "cmd \<in> set (custom_commands s) \<and> c_name cmd = name \<and> c_enabled cmd
      \<and> (c_is_global cmd \<or> c_created_by cmd = userID)"
      by (auto simp: in_rows sel_def)
  next
    assume "\<exists>p \<in> set (custom_commands s).
          c_name p = name \<and> \<not> c_is_global p \<and> c_created_by p = userID \<and> c_enabled p"
    then obtain p where p: "p \<in> set (custom_commands s)" "sel p" "\<not> c_is_global p"
      by (auto simp: sel_def)
    then have pf: "p \<in> set (filter sel (custom_commands s))" by simp
    then have "rows \<noteq> []" by (auto simp: rows_def simp flip: set_empty)
    then obtain c r where cr: "rows = c # r" by (cases rows) auto
    have "c_is_global c \<le> c_is_global p"
      using sort_key_head_least [OF cr [unfolded rows_def] pf] .
    with p(3) have ng: "\<not> c_is_global c" by simp
    have "c \<in> set rows" by (simp add: cr)
    with ng have "c_created_by c = userID \<and> c_name c = name \<and> c_enabled c"
      by (auto simp: in_rows sel_def)
    with ng G cr show "\<exists>c. GetCommandByName s name userID = Some c \<and> \<not> c_is_global c
        \<and> c_created_by c = userID \<and> c_name c = name \<and> c_enabled c"
      by simp
  qed
qed

theorem command_by_name_prefers_private_witness:
  "GetCommandByName deploy_commands ''deploy'' ''u1''
     = Some \<lparr>c_id = ''p'', c_name = ''deploy'', c_is_global = False, c_created_by = ''u1'',
             c_enabled = True\<rparr>
   \<and> (\<exists>p \<in> set (custom_commands deploy_commands).
          c_name p = ''deploy'' \<and> \<not> c_is_global p \<and> c_created_by p = ''u1'' \<and> c_enabled p)"
proof -
  have e: "\<exists>p \<in> set (custom_commands deploy_commands).
          c_name p = ''deploy'' \<and> \<not> c_is_global p \<and> c_created_by p = ''u1'' \<and> c_enabled p"
    by (simp add: deploy_commands_def)
  have g: "GetCommandByName deploy_commands ''deploy'' ''u1''
     = Some \<lparr>c_id = ''p'', c_name = ''deploy'', c_is_global = False, c_created_by = ''u1'',
             c_enabled = True\<rparr>"
    by (simp add: GetCommandByName_def deploy_commands_def sql_limit_def)
  note w = command_by_name_prefers_private [of deploy_commands "''deploy''" "''u1''"
      "\<lparr>c_id = ''p'', c_name = ''deploy'', c_is_global = False, c_created_by = ''u1'',
             c_enabled = True\<rparr>"]
  show ?thesis using w e g by simp
qed

section \<open>The per-app query whitelist\<close>

lemma any_prefix_iff: "any_prefix n ps \<longleftrightarrow> (\<exists>p \<in> set ps. HasPrefix n p)"
  by (induction ps) auto

lemma isAllowedQuery_iff:
  "isAllowedQuery tables q \<longleftrightarrow> (\<exists>p \<in> set allowed. HasPrefix (ToUpper tables (TrimSpace q)) p)"
  by (simp add: isAllowedQuery_def any_prefix_iff)

lemma Query_executes_own_statement:
  "x \<in> set (snd (Query tables eng appID isMember body)) \<Longrightarrow>
   \<exists>params. body = Some (x, params) \<and> isAllowedQuery tables x"
  by (auto simp: Query_def split: if_splits option.splits sum.splits)

text \<open>
  C9: a statement reaches the engine only when its text, trimmed of white space and
  upper-cased as Go does it (by code point, whatever the case table of the Go
  distribution holds), starts with one of \<open>SELECT\<close>, \<open>INSERT\<close>, \<open>UPDATE\<close>,
  \<open>DELETE\<close>, \<open>CREATE TABLE\<close>, \<open>CREATE INDEX\<close>. For a request that carries a statement
  (a member's request for a named app whose body decodes), any other statement is
  answered by the JSON object whose \<open>error\<close> field holds the "not allowed" message, and
  nothing is executed. The handler is a total function: every request has a response.
\<close>

theorem per_app_query_whitelist:
  "(x \<in> set (snd (Query tables eng appID isMember body)) \<longrightarrow>
      (\<exists>params. body = Some (x, params))
      \<and> (\<exists>pre \<in> set [''SELECT'', ''INSERT'', ''UPDATE'', ''DELETE'', ''CREATE TABLE'', ''CREATE INDEX''].
            HasPrefix (ToUpper tables (TrimSpace x)) pre))
   \<and> (appID \<noteq> [] \<and> isMember
        \<and> \<not> (\<exists>pre \<in> set [''SELECT'', ''INSERT'', ''UPDATE'', ''DELETE'', ''CREATE TABLE'', ''CREATE INDEX''].
                HasPrefix (ToUpper tables (TrimSpace query)) pre)
      \<longrightarrow> Query tables eng appID isMember (Some (query, params))
            = (QueryJson \<lparr>Columns = [], Rows = [], Error = not_allowed_message\<rparr>, []))"
proof (intro conjI impI)
  assume "x \<in> set (snd (Query tables eng appID isMember body))"
  from Query_executes_own_statement [OF this]
  show "\<exists>params. body = Some (x, params)"
    and "\<exists>pre \<in> set [''SELECT'', ''INSERT'', ''UPDATE'', ''DELETE'', ''CREATE TABLE'', ''CREATE INDEX''].
            HasPrefix (ToUpper tables (TrimSpace x)) pre"
    by (auto simp: isAllowedQuery_iff allowed_def)
next
  assume "appID \<noteq> [] \<and> isMember
        \<and> \<not> (\<exists>pre \<in> set [''SELECT'', ''INSERT'', ''UPDATE'', ''DELETE'', ''CREATE TABLE'', ''CREATE INDEX''].
                HasPrefix (ToUpper tables (TrimSpace query)) pre)"
  then have "appID \<noteq> []" "isMember" "\<not> isAllowedQuery tables query"
    by (simp_all add: isAllowedQuery_iff allowed_def)
  then show "Query tables eng appID isMember (Some (query, params))
            = (QueryJson \<lparr>Columns = [], Rows = [], Error = not_allowed_message\<rparr>, [])"
    by (simp add: Query_def error_response_def)
qed

theorem per_app_query_whitelist_witness:
  "ToUpper latin_case (TrimSpace (nbsp @ long_s @ ''elect 1'')) = ''SELECT 1''
   \<and> Query latin_case quiet_engine ''app1'' True (Some (nbsp @ long_s @ ''elect 1'', [])) =
       (QueryJson \<lparr>Columns = [], Rows = [], Error = []\<rparr>, [nbsp @ long_s @ ''elect 1''])
   \<and> nbsp @ long_s @ ''elect 1''
       \<in> set (snd (Query latin_case quiet_engine ''app1'' True (Some (nbsp @ long_s @ ''elect 1'', []))))
   \<and> HasPrefix (ToUpper latin_case (TrimSpace (nbsp @ long_s @ ''elect 1''))) ''SELECT''
   \<and> ''app1'' \<noteq> []
   \<and> ToUpper latin_case (TrimSpace ''Drop Table t'') = ''DROP TABLE T''
   \<and> \<not> (\<exists>pre \<in> set [''SELECT'', ''INSERT'', ''UPDATE'', ''DELETE'', ''CREATE TABLE'', ''CREATE INDEX''].
           HasPrefix (ToUpper latin_case (TrimSpace ''Drop Table t'')) pre)
   \<and> Query latin_case quiet_engine ''app1'' True (Some (''Drop Table t'', []))
        = (QueryJson \<lparr>Columns = [], Rows = [], Error = not_allowed_message\<rparr>, [])"
proof -
  let ?q = "nbsp @ long_s @ ''elect 1''"
  have up: "ToUpper latin_case (TrimSpace ?q) = ''SELECT 1''"
    by (simp add: string_eval latin_case_def nbsp_def long_s_def)
  have up2: "ToUpper latin_case (TrimSpace ''Drop Table t'') = ''DROP TABLE T''"
    by (simp add: string_eval latin_case_def)
  have ok: "isAllowedQuery latin_case ?q"
    unfolding isAllowedQuery_def Let_def up by (simp add: allowed_def HasPrefix_def)
  have run: "Query latin_case quiet_engine ''app1'' True (Some (?q, [])) =
     (QueryJson \<lparr>Columns = [], Rows = [], Error = []\<rparr>, [?q])"
    using ok by (simp add: Query_def quiet_engine_def executeQuery_def up HasPrefix_def)
  have sel: "HasPrefix (ToUpper latin_case (TrimSpace ?q)) ''SELECT''"
    unfolding up by (simp add: HasPrefix_def)
  have bad: "\<not> (\<exists>pre \<in> set [''SELECT'', ''INSERT'', ''UPDATE'', ''DELETE'', ''CREATE TABLE'', ''CREATE INDEX''].
           HasPrefix (ToUpper latin_case (TrimSpace ''Drop Table t'')) pre)"
    unfolding up2 by (simp add: HasPrefix_def)
  note w1 = per_app_query_whitelist [of ?q latin_case quiet_engine "''app1''" True
      "Some (?q, [])" "''Drop Table t''" "[]"]
  show ?thesis using w1 run sel bad up up2 by simp
qed

section \<open>Interpolation: totality and empty substitutions\<close>

subsection \<open>The indexed-word callback never panics\<close>

lemma match_index_digits:
  "match_index s = Some (ds, rest) \<Longrightarrow> ds \<noteq> [] \<and> list_all is_digit ds"
  by (auto simp: match_index_def Let_def list_all_iff split: if_splits dest: set_takeWhileD)

lemma Atoi_digits_nonneg:
  "list_all is_digit ds \<Longrightarrow> ds \<noteq> [] \<Longrightarrow> Atoi ds = Some idx \<Longrightarrow> 0 \<le> idx"
  by (cases ds) (auto simp: Atoi_def Let_def is_digit_def split: if_splits)

lemma index_replacement_total:
  "list_all is_digit ds \<Longrightarrow> ds \<noteq> [] \<Longrightarrow> index_replacement enc parts ds \<noteq> None"
  by (auto simp: index_replacement_def split: option.splits dest: Atoi_digits_nonneg)

lemma replace_index_total:
  "(\<And>ds. list_all is_digit ds \<Longrightarrow> ds \<noteq> [] \<Longrightarrow> repl ds \<noteq> None) \<Longrightarrow> replace_index repl s \<noteq> None"
proof (induction repl s rule: replace_index.induct)
  case (1 repl)
  then show ?case by simp
next
  case (2 repl c cs)
  show ?case
  proof (cases "match_index (c # cs)")
    case None
    with 2 show ?thesis by simp
  next
    case (Some p)
    obtain ds rest where p: "p = (ds, rest)" by (cases p)
    from Some p have d: "ds \<noteq> [] \<and> list_all is_digit ds" by (simp add: match_index_digits)
    then obtain r where r: "repl ds = Some r" using "2.prems" by fastforce
    have "replace_index repl rest \<noteq> None"
      using "2.IH"(2) [OF Some p [symmetric] r] "2.prems" by blast
    with Some p r show ?thesis by simp
  qed
qed

lemma interpolate_total: "interpolate now t ctx enc \<noteq> None"
  using replace_index_total [of "index_replacement enc (Fields (Input ctx))"] index_replacement_total
  by (auto simp: interpolate_def Let_def split: option.splits)

subsection \<open>Matches do not straddle the start of a placeholder\<close>

lemma not_digit_brace [simp]: "\<not> is_digit CHR ''{''" "\<not> is_digit CHR ''}''"
  by (simp_all add: is_digit_def)

lemma list_shape8:
  obtains "length a < 8" | c1 c2 c3 c4 c5 c6 c7 c8 r where "a = c1 # c2 # c3 # c4 # c5 # c6 # c7 # c8 # r"
proof (cases "length a < 8")
  case True then show ?thesis using that by blast
next
  case False
  then have "a = take 8 a @ drop 8 a" "length (take 8 a) = 8" by auto
  then obtain p r where a: "a = p @ r" and l: "length p = 8" by blast
  from l obtain c1 c2 c3 c4 c5 c6 c7 c8 where "p = [c1,c2,c3,c4,c5,c6,c7,c8]"
    by (auto simp: length_Suc_conv eval_nat_numeral)
  with a that show ?thesis by auto
qed

lemma digits_then_braces:
  fixes X :: string
  assumes X: "X = CHR ''{'' # X'"
  shows "(let ds = takeWhile is_digit (r @ X); r' = dropWhile is_digit (r @ X)
          in if ds \<noteq> [] \<and> HasPrefix r' ''}}'' then Some (ds, drop 2 r') else None)
       = map_option (\<lambda>(d, q). (d, q @ X))
          (let ds = takeWhile is_digit r; r' = dropWhile is_digit r
           in if ds \<noteq> [] \<and> HasPrefix r' ''}}'' then Some (ds, drop 2 r') else None)"
proof (cases "\<forall>x\<in>set r. is_digit x")
  case True
  then have eqs: "takeWhile is_digit (r @ X) = r" "dropWhile is_digit (r @ X) = X"
      "takeWhile is_digit r = r" "dropWhile is_digit r = []"
    by (simp_all add: X takeWhile_append2 dropWhile_append2)
  show ?thesis unfolding eqs by (simp add: HasPrefix_def X Let_def)
next
  case False
  then obtain x where x: "x \<in> set r" "\<not> is_digit x" by blast
  then have tw: "takeWhile is_digit (r @ X) = takeWhile is_digit r"
    and dw: "dropWhile is_digit (r @ X) = dropWhile is_digit r @ X"
    by (simp_all add: takeWhile_append1 dropWhile_append1)
  from x have ne: "dropWhile is_digit r \<noteq> []" by auto
  show ?thesis
  proof (cases "dropWhile is_digit r")
    case Nil with ne show ?thesis by simp
  next
    case (Cons y ys)
    then show ?thesis
      unfolding tw dw by (cases ys) (auto simp: HasPrefix_def X Let_def)
  qed
qed

lemma match_index_append:
  assumes X: "X = CHR ''{'' # CHR ''{'' # X'" and a: "a \<noteq> []"
  shows "match_index (a @ X) = map_option (\<lambda>(d, r). (d, r @ X)) (match_index a)"
proof (cases a rule: list_shape8)
  case 1
  then have "\<not> HasPrefix a ''{{input.''" by (simp add: HasPrefix_def)
  moreover have "\<not> HasPrefix (a @ X) ''{{input.''"
  proof
    assume "HasPrefix (a @ X) ''{{input.''"
    then have "take (length ''{{input.'') (a @ X) = ''{{input.''"
      unfolding HasPrefix_def by blast
    moreover have "length ''{{input.'' = 8" by simp
    ultimately have eq: "take 8 (a @ X) = ''{{input.''" by metis
    define n where "n = length a"
    have n: "0 < n" "n < 8" using a 1 by (simp_all add: n_def)
    have t1: "take 8 (a @ X) ! n = (a @ X) ! n" using n by (intro nth_take)
    have v1: "(a @ X) ! n = CHR ''{''" by (simp add: n_def X nth_append)
    have e1: "''{{input.'' ! n = CHR ''{''" using t1 [unfolded eq] v1 by simp
    have t2: "take 8 (a @ X) ! (n + 1) = (a @ X) ! (n + 1)" if "n + 1 < 8"
      using that by (intro nth_take)
    have v2: "(a @ X) ! (n + 1) = CHR ''{''" by (simp add: n_def X nth_append)
    have e2: "''{{input.'' ! (n + 1) = CHR ''{''" if "n + 1 < 8"
      using t2 [OF that, unfolded eq] v2 by simp
    from n consider "n = 1" | "n = 2" | "n = 3" | "n = 4" | "n = 5" | "n = 6" | "n = 7"
      by linarith
    then show False using e1 e2 by cases simp_all
  qed
  ultimately show ?thesis by (simp add: match_index_def)
next
  case (2 c1 c2 c3 c4 c5 c6 c7 c8 r)
  have hp: "HasPrefix (a @ X) ''{{input.'' = HasPrefix a ''{{input.''"
    by (simp add: 2 HasPrefix_def)
  have dr: "drop 8 (a @ X) = r @ X" "drop 8 a = r" by (simp_all add: 2)
  show ?thesis
    unfolding match_index_def hp dr
    using digits_then_braces [of X "CHR ''{'' # X'" r] by (simp add: X)
qed

lemma match_index_placeholder:
  assumes "ds \<noteq> []" "list_all is_digit ds"
  shows "match_index (''{{input.'' @ ds @ ''}}'' @ b) = Some (ds, b)"
proof -
  have "takeWhile is_digit (ds @ ''}}'' @ b) = ds" "dropWhile is_digit (ds @ ''}}'' @ b) = ''}}'' @ b"
    using assms by (simp_all add: list_all_iff takeWhile_append2 dropWhile_append2)
  then show ?thesis using assms(1) by (simp add: match_index_def HasPrefix_def Let_def)
qed

lemma replace_index_append_match:
  assumes X: "X = CHR ''{'' # CHR ''{'' # X'" and mX: "match_index X = Some (ds, b)"
  shows "replace_index repl (a @ X) =
     (case replace_index repl a of
        None \<Rightarrow> None
      | Some ra \<Rightarrow>
          (case repl ds of
             None \<Rightarrow> None
           | Some r \<Rightarrow> map_option (\<lambda>rb. ra @ r @ rb) (replace_index repl b)))"
proof (induction repl a rule: replace_index.induct)
  case (1 repl)
  have "replace_index repl X =
        (case repl ds of None \<Rightarrow> None | Some r \<Rightarrow> map_option ((@) r) (replace_index repl b))"
    using mX by (subst X, subst replace_index.simps) (simp add: X [symmetric])
  then show ?case by (simp split: option.splits)
next
  case (2 repl c cs)
  have m: "match_index ((c # cs) @ X) = map_option (\<lambda>(d, r). (d, r @ X)) (match_index (c # cs))"
    by (rule match_index_append [OF X]) simp
  show ?case
  proof (cases "match_index (c # cs)")
    case None
    with m have "match_index (c # cs @ X) = None" by simp
    then have "replace_index repl ((c # cs) @ X) = map_option ((#) c) (replace_index repl (cs @ X))"
      by simp
    with "2.IH"(1) [OF None] None show ?thesis
      by (simp add: option.map_comp comp_def split: option.splits)
  next
    case (Some p)
    obtain d rest where p: "p = (d, rest)" by (cases p)
    with m Some have m': "match_index (c # cs @ X) = Some (d, rest @ X)" by simp
    show ?thesis
    proof (cases "repl d")
      case None
      with m' Some p show ?thesis by simp
    next
      case (Some r)
      from "2.IH"(2) [OF \<open>match_index (c # cs) = Some p\<close> p [symmetric] Some]
      show ?thesis using m' \<open>match_index (c # cs) = Some p\<close> p Some
        by (simp add: option.map_comp comp_def split: option.splits)
    qed
  qed
qed

lemma replace_index_placeholder:
  assumes ds: "ds \<noteq> []" "list_all is_digit ds"
  shows "replace_index repl (a @ ''{{input.'' @ ds @ ''}}'' @ b) =
     (case replace_index repl a of
        None \<Rightarrow> None
      | Some ra \<Rightarrow>
          (case repl ds of
             None \<Rightarrow> None
           | Some r \<Rightarrow> map_option (\<lambda>rb. ra @ r @ rb) (replace_index repl b)))"
  by (rule replace_index_append_match [OF _ match_index_placeholder [OF ds]]) simp

lemma no_straddle:
  assumes p: "p = CHR ''{'' # CHR ''{'' # q" and q: "q \<noteq> []" "CHR ''{'' \<notin> set q"
    and X: "X = CHR ''{'' # CHR ''{'' # X'" and a: "a \<noteq> []" "length a < length p"
  shows "\<not> HasPrefix (a @ X) p"
proof
  assume "HasPrefix (a @ X) p"
  then have eq: "take (length p) (a @ X) = p" by (simp add: HasPrefix_def)
  define n where "n = length a"
  have n: "0 < n" "n < length p" using a by (simp_all add: n_def)
  have nth_p: "p ! i = (a @ X) ! i" if "i < length p" for i
    using nth_take [OF that, of "a @ X"] eq by simp
  have "p ! n = CHR ''{''" using nth_p [OF n(2)] by (simp add: n_def X nth_append)
  moreover have "p ! n \<in> set q" if "2 \<le> n"
  proof -
    from that n have "p ! n = q ! (n - 2)" "n - 2 < length q"
      by (auto simp: p nth_Cons split: nat.splits)
    then show ?thesis by simp
  qed
  ultimately have n1: "n = 1" using q(2) n(1) by (cases "2 \<le> n") auto
  have "2 < length p" using q(1) by (cases q) (simp_all add: p)
  then have "p ! 2 = (a @ X) ! 2" by (rule nth_p)
  also have "\<dots> = CHR ''{''" using n1 by (simp add: n_def X nth_append)
  finally have "q ! 0 = CHR ''{''" by (simp add: p)
  with q show False by (cases q) auto
qed

lemma replace_from_placeholder:
  assumes old: "old = CHR ''{'' # CHR ''{'' # q" and q: "q \<noteq> []" "CHR ''{'' \<notin> set q"
  shows "replace_from old new (a @ old @ b) = replace_from old new a @ new @ replace_from old new b"
proof (induction a rule: length_induct)
  case (1 a)
  show ?case
  proof (cases a)
    case Nil
    have "HasPrefix (old @ b) old" by (simp add: HasPrefix_def)
    moreover obtain c cs where ob: "old @ b = c # cs" by (simp add: old)
    ultimately have "replace_from old new (old @ b) = new @ replace_from old new (drop (length old) (old @ b))"
      using old by (metis replace_from.simps(2) list.distinct(1))
    with Nil show ?thesis by simp
  next
    case (Cons c cs)
    have hp: "HasPrefix (a @ old @ b) old = HasPrefix a old"
    proof (cases "length old \<le> length a")
      case True then show ?thesis by (simp add: HasPrefix_def)
    next
      case False
      then have "\<not> HasPrefix a old" by (simp add: HasPrefix_def)
      moreover have "\<not> HasPrefix (a @ (old @ b)) old"
        by (rule no_straddle [OF old q]) (use False Cons old in auto)
      ultimately show ?thesis by simp
    qed
    show ?thesis
    proof (cases "HasPrefix a old")
      case True
      then have le: "length old \<le> length a" by (simp add: HasPrefix_def)
      have lt: "length (drop (length old) a) < length a" using Cons old by simp
      from True hp have "replace_from old new (a @ old @ b)
           = new @ replace_from old new (drop (length old) a @ old @ b)"
        using le old by (simp add: Cons)
      also have "\<dots> = new @ replace_from old new (drop (length old) a) @ new @ replace_from old new b"
        using 1 lt by simp
      finally have l: "replace_from old new (a @ old @ b)
           = new @ replace_from old new (drop (length old) a) @ new @ replace_from old new b" .
      have "replace_from old new a = new @ replace_from old new (drop (length old) a)"
        using True old by (simp add: Cons)
      with l show ?thesis by simp
    next
      case False
      with hp have "replace_from old new (a @ old @ b) = c # replace_from old new (cs @ old @ b)"
        by (simp add: Cons)
      also have "\<dots> = c # replace_from old new cs @ new @ replace_from old new b"
        using 1 Cons by simp
      finally have l: "replace_from old new (a @ old @ b)
           = c # replace_from old new cs @ new @ replace_from old new b" .
      have "replace_from old new a = c # replace_from old new cs"
        using False by (simp add: Cons)
      with l show ?thesis by simp
    qed
  qed
qed

subsection \<open>Text without braces is left alone\<close>

lemma digit_not_brace: "list_all is_digit ds \<Longrightarrow> CHR ''{'' \<notin> set ds"
  by (auto simp: list_all_iff)

lemma replace_from_plain:
  "CHR ''{'' \<notin> set s \<Longrightarrow> old = CHR ''{'' # o' \<Longrightarrow> replace_from old new s = s"
  by (induction s) (auto simp: HasPrefix_def)

lemma replace_from_prefix_plain:
  "CHR ''{'' \<notin> set a \<Longrightarrow> old = CHR ''{'' # o' \<Longrightarrow>
   replace_from old new (a @ t) = a @ replace_from old new t"
  by (induction a) (auto simp: HasPrefix_def)

lemma replace_from_two_braces:
  assumes "CHR ''{'' \<notin> set r" and "old = CHR ''{'' # CHR ''{'' # o'"
    and "\<not> HasPrefix (CHR ''{'' # CHR ''{'' # r) old"
  shows "replace_from old new (CHR ''{'' # CHR ''{'' # r) = CHR ''{'' # CHR ''{'' # r"
proof -
  have "\<not> HasPrefix (CHR ''{'' # r) old"
    using assms(1,2) by (cases r) (auto simp: HasPrefix_def)
  with assms(3) have "replace_from old new (CHR ''{'' # CHR ''{'' # r)
      = CHR ''{'' # CHR ''{'' # replace_from old new r" by simp
  with replace_from_plain [OF assms(1), of old] assms(2) show ?thesis by simp
qed

lemma ReplaceAll_plain:
  "CHR ''{'' \<notin> set s \<Longrightarrow> old = CHR ''{'' # o' \<Longrightarrow> ReplaceAll s old new = s"
  by (simp add: ReplaceAll_def replace_from_plain)

lemma replace_index_plain: "CHR ''{'' \<notin> set s \<Longrightarrow> replace_index f s = Some s"
  by (induction s) (auto simp: match_index_def HasPrefix_def)

lemma replace_index_prefix_plain:
  "CHR ''{'' \<notin> set a \<Longrightarrow>
   replace_index f (a @ t) = (case replace_index f t of None \<Rightarrow> None | Some r \<Rightarrow> Some (a @ r))"
  by (induction a) (auto simp: match_index_def HasPrefix_def split: option.splits)

lemma replace_variables_plain:
  "CHR ''{'' \<notin> set s \<Longrightarrow> replace_variables enc ctx now s = s"
  by (simp add: replace_variables_def ReplaceAll_plain)

lemma replace_rest_plain:
  "CHR ''{'' \<notin> set s \<Longrightarrow> replace_rest enc parts s = s"
  by (simp add: replace_rest_def ReplaceAll_plain)

lemma Atoi_digits:
  "list_all is_digit ds \<Longrightarrow> ds \<noteq> [] \<Longrightarrow> Atoi ds = Some idx \<Longrightarrow> idx = int (digits_value ds)"
  by (cases ds) (auto simp: Atoi_def Let_def is_digit_def split: if_splits)

lemma index_replacement_out_of_range:
  assumes "list_all is_digit ds" "ds \<noteq> []" "length parts \<le> digits_value ds"
  shows "index_replacement enc parts ds = Some []"
  using assms Atoi_digits [OF assms(1,2)]
  by (auto simp: index_replacement_def split: option.splits)

lemma input_pass_keeps_index_placeholder:
  assumes "CHR ''{'' \<notin> set a" "CHR ''{'' \<notin> set b" "CHR ''{'' \<notin> set mid"
  shows "ReplaceAll (a @ ''{{input.'' @ mid @ ''}}'' @ b) ''{{input}}'' new
         = a @ ''{{input.'' @ mid @ ''}}'' @ b"
proof -
  have "replace_from ''{{input}}'' new (CHR ''{'' # CHR ''{'' # (''input.'' @ mid @ ''}}'' @ b))
        = CHR ''{'' # CHR ''{'' # (''input.'' @ mid @ ''}}'' @ b)"
    by (rule replace_from_two_braces) (use assms in \<open>auto simp: HasPrefix_def\<close>)
  then show ?thesis
    using replace_from_prefix_plain [OF assms(1), of "''{{input}}''"]
    by (simp add: ReplaceAll_def)
qed

lemma index_pass_keeps_rest_placeholder:
  assumes "CHR ''{'' \<notin> set a" "CHR ''{'' \<notin> set b"
  shows "replace_index f (a @ ''{{input.rest}}'' @ b) = Some (a @ ''{{input.rest}}'' @ b)"
proof -
  have m1: "match_index (''{{input.rest}}'' @ b) = None"
    by (simp add: match_index_def HasPrefix_def is_digit_def)
  have m2: "match_index (''{input.rest}}'' @ b) = None"
    by (simp add: match_index_def HasPrefix_def)
  have "replace_index f (''input.rest}}'' @ b) = Some (''input.rest}}'' @ b)"
    by (rule replace_index_plain) (use assms in auto)
  with m2 have "replace_index f (''{input.rest}}'' @ b) = Some (''{input.rest}}'' @ b)"
    by simp
  with m1 have "replace_index f (''{{input.rest}}'' @ b) = Some (''{{input.rest}}'' @ b)"
    by simp
  then show ?thesis by (simp add: replace_index_prefix_plain [OF assms(1)])
qed

lemma interpolate_index_plain:
  assumes "CHR ''{'' \<notin> set a" "CHR ''{'' \<notin> set b"
    and ds: "ds \<noteq> []" "list_all is_digit ds"
    and big: "length (Fields (Input ctx)) \<le> digits_value ds"
  shows "interpolate now (a @ ''{{input.'' @ ds @ ''}}'' @ b) ctx enc = Some (a @ b)"
proof -
  let ?T = "a @ ''{{input.'' @ ds @ ''}}'' @ b"
  let ?f = "index_replacement enc (Fields (Input ctx))"
  have p1: "ReplaceAll ?T ''{{input}}'' (encode enc (Input ctx)) = ?T"
    by (rule input_pass_keeps_index_placeholder) (use assms digit_not_brace in auto)
  have "?f ds = Some []" using ds big by (simp add: index_replacement_out_of_range)
  then have p2: "replace_index ?f ?T = Some (a @ b)"
    using replace_index_placeholder [OF ds, of ?f a b] assms(1,2)
    by (simp add: replace_index_plain)
  have nb: "CHR ''{'' \<notin> set (a @ b)" using assms by simp
  show ?thesis
    unfolding interpolate_def Let_def p1 p2
    by (simp only: option.case replace_rest_plain [OF nb] replace_variables_plain [OF nb])
qed

lemma interpolate_rest_plain:
  assumes "CHR ''{'' \<notin> set a" "CHR ''{'' \<notin> set b"
    and few: "length (Fields (Input ctx)) < 2"
  shows "interpolate now (a @ ''{{input.rest}}'' @ b) ctx enc = Some (a @ b)"
proof -
  let ?T = "a @ ''{{input.rest}}'' @ b"
  let ?f = "index_replacement enc (Fields (Input ctx))"
  have "ReplaceAll (a @ ''{{input.'' @ ''rest'' @ ''}}'' @ b) ''{{input}}'' (encode enc (Input ctx))
        = a @ ''{{input.'' @ ''rest'' @ ''}}'' @ b"
    by (rule input_pass_keeps_index_placeholder) (use assms in auto)
  then have p1: "ReplaceAll ?T ''{{input}}'' (encode enc (Input ctx)) = ?T" by simp
  have p2: "replace_index ?f ?T = Some ?T"
    by (rule index_pass_keeps_rest_placeholder) fact+
  have "replace_from ''{{input.rest}}'' [] ?T
        = replace_from ''{{input.rest}}'' [] a @ [] @ replace_from ''{{input.rest}}'' [] b"
    by (rule replace_from_placeholder) auto
  then have p3: "replace_rest enc (Fields (Input ctx)) ?T = a @ b"
    using few assms(1,2) by (simp add: replace_rest_def ReplaceAll_def replace_from_plain)
  have nb: "CHR ''{'' \<notin> set (a @ b)" using assms by simp
  show ?thesis
    unfolding interpolate_def Let_def p1 p2
    by (simp only: option.case p3 replace_variables_plain [OF nb])
qed


text \<open>
  C10: interpolation returns a string for every template and context (the model's
  \<open>None\<close>, an index out of range, never occurs). A placeholder \<open>{{input.N}}\<close> whose
  \<open>N\<close> is at least the number of words of the input contributes the empty string:
  the callback returns it, the indexed-word pass over a template containing the
  placeholder yields the results for the text before and behind it and nothing between
  them, and a template of brace-free text around the placeholder is interpolated to
  that text. The same holds for \<open>{{input.rest}}\<close> when the input has fewer than two
  words.
\<close>

theorem interpolate_total_and_empty:
  "(\<exists>r. interpolate now template ctx urlEncode = Some r)
   \<and> (ds \<noteq> [] \<and> list_all is_digit ds \<and> length (Fields (Input ctx)) \<le> digits_value ds \<longrightarrow>
        index_replacement urlEncode (Fields (Input ctx)) ds = Some []
        \<and> (\<exists>ra rb.
              replace_index (index_replacement urlEncode (Fields (Input ctx))) a = Some ra
              \<and> replace_index (index_replacement urlEncode (Fields (Input ctx))) b = Some rb
              \<and> replace_index (index_replacement urlEncode (Fields (Input ctx)))
                    (a @ ''{{input.'' @ ds @ ''}}'' @ b) = Some (ra @ rb))
        \<and> (CHR ''{'' \<notin> set a \<and> CHR ''{'' \<notin> set b \<longrightarrow>
              interpolate now (a @ ''{{input.'' @ ds @ ''}}'' @ b) ctx urlEncode = Some (a @ b)))
   \<and> (length (Fields (Input ctx)) < 2 \<longrightarrow>
        replace_rest urlEncode (Fields (Input ctx)) (a @ ''{{input.rest}}'' @ b)
          = replace_rest urlEncode (Fields (Input ctx)) a @ replace_rest urlEncode (Fields (Input ctx)) b
        \<and> (CHR ''{'' \<notin> set a \<and> CHR ''{'' \<notin> set b \<longrightarrow>
              interpolate now (a @ ''{{input.rest}}'' @ b) ctx urlEncode = Some (a @ b)))"
proof (intro conjI impI)
  show "\<exists>r. interpolate now template ctx urlEncode = Some r"
    using interpolate_total [of now template ctx urlEncode] by auto
next
  let ?f = "index_replacement urlEncode (Fields (Input ctx))"
  assume h: "ds \<noteq> [] \<and> list_all is_digit ds \<and> length (Fields (Input ctx)) \<le> digits_value ds"
  then have ds: "ds \<noteq> []" "list_all is_digit ds" by simp_all
  from h show e: "?f ds = Some []" by (simp add: index_replacement_out_of_range)
  have tot: "replace_index ?f s \<noteq> None" for s
    by (rule replace_index_total) (rule index_replacement_total)
  obtain ra rb where r: "replace_index ?f a = Some ra" "replace_index ?f b = Some rb"
    using tot [of a] tot [of b] by auto
  with replace_index_placeholder [OF ds, of ?f a b] e
  show "\<exists>ra rb. replace_index ?f a = Some ra \<and> replace_index ?f b = Some rb
          \<and> replace_index ?f (a @ ''{{input.'' @ ds @ ''}}'' @ b) = Some (ra @ rb)"
    by simp
  assume "CHR ''{'' \<notin> set a \<and> CHR ''{'' \<notin> set b"
  then have "CHR ''{'' \<notin> set a" "CHR ''{'' \<notin> set b" by simp_all
  moreover from h have "length (Fields (Input ctx)) \<le> digits_value ds" by simp
  ultimately show "interpolate now (a @ ''{{input.'' @ ds @ ''}}'' @ b) ctx urlEncode = Some (a @ b)"
    using ds by (intro interpolate_index_plain)
next
  assume few: "length (Fields (Input ctx)) < 2"
  have "replace_from ''{{input.rest}}'' [] (a @ ''{{input.rest}}'' @ b)
        = replace_from ''{{input.rest}}'' [] a @ [] @ replace_from ''{{input.rest}}'' [] b"
    by (rule replace_from_placeholder) auto
  with few show "replace_rest urlEncode (Fields (Input ctx)) (a @ ''{{input.rest}}'' @ b)
          = replace_rest urlEncode (Fields (Input ctx)) a @ replace_rest urlEncode (Fields (Input ctx)) b"
    by (simp add: replace_rest_def ReplaceAll_def)
  assume "CHR ''{'' \<notin> set a \<and> CHR ''{'' \<notin> set b"
  then have "CHR ''{'' \<notin> set a" "CHR ''{'' \<notin> set b" by simp_all
  then show "interpolate now (a @ ''{{input.rest}}'' @ b) ctx urlEncode = Some (a @ b)"
    using few by (intro interpolate_rest_plain)
qed

theorem interpolate_total_and_empty_witness:
  "''7'' \<noteq> [] \<and> list_all is_digit ''7'' \<and> Fields (Input one_word_ctx) = [''hello'']
   \<and> length (Fields (Input one_word_ctx)) \<le> digits_value ''7''
   \<and> length (Fields (Input one_word_ctx)) < 2
   \<and> CHR ''{'' \<notin> set ''q='' \<and> CHR ''{'' \<notin> set ''&x''
   \<and> index_replacement True (Fields (Input one_word_ctx)) ''7'' = Some []
   \<and> interpolate some_clock ''q={{input.7}}&x'' one_word_ctx True = Some ''q=&x''
   \<and> interpolate some_clock ''q={{input.rest}}&x'' one_word_ctx True = Some ''q=&x''
   \<and> Fields (Input two_word_ctx) = [''a'', ''b'']
   \<and> length (Fields (Input two_word_ctx)) \<le> digits_value ''2''
   \<and> index_replacement False (Fields (Input two_word_ctx)) ''1'' = Some ''b''
   \<and> interpolate some_clock ''[{{input.2}}]'' two_word_ctx False = Some ''[]''"
proof -
  have f: "Fields (Input one_word_ctx) = [''hello'']"
    by (simp add: one_word_ctx_def string_eval)
  have f2: "Fields (Input two_word_ctx) = [''a'', ''b'']"
    by (simp add: two_word_ctx_def nbsp_def string_eval)
  have d: "list_all is_digit ''7''" "digits_value ''7'' = 7"
    "list_all is_digit ''2''" "digits_value ''2'' = 2"
    by (simp_all add: is_digit_def digits_value_def digit_val_def)
  have i1: "index_replacement False [''a'', ''b''] ''1'' = Some ''b''"
    by (simp add: index_replacement_def Atoi_eval encode_def)
  note w = interpolate_total_and_empty [of some_clock "[]" one_word_ctx True "''7''"
      "''q=''" "''&x''"]
  note w2 = interpolate_total_and_empty [of some_clock "[]" two_word_ctx False "''2''"
      "''[''" "'']''"]
  show ?thesis using w w2 f f2 d i1 by simp
qed

end
